theory Spec2Isabelle
  imports Main "HOL-Library.Sublist" "HOL-Library.Multiset"
begin

text \<open>
  The request lifecycle of the document-request server: the Mongoose schema of
  \<open>models/Request.js\<close>, the handlers of \<open>controllers/requestController.js\<close> and the
  admin gate of the router, as functions on an explicit collection of documents. A handler
  takes the time of the call, the collection, the route's \<open>:id\<close>, the request body and
  the principal \<open>req.user\<close>; it returns an error, or the document of its response
  together with the collection after the call.
\<close>

section \<open>JavaScript values used by the controllers\<close>

text \<open>
  A field of \<open>req.body\<close> or \<open>req.query\<close> is a string or is missing (\<open>undefined\<close>):
  \<open>string option\<close>. ObjectIds are compared only for equality (\<open>toString() !== req.user.id\<close>)
  and are modelled by natural numbers; dates are numbers of milliseconds.
\<close>

type_synonym object_id = nat
type_synonym date = nat

text \<open>\<open>if (v)\<close>, \<open>!v\<close>: \<open>undefined\<close> and the empty string are falsy.\<close>

definition truthy :: "string option \<Rightarrow> bool" where
  "truthy v = (case v of None \<Rightarrow> False | Some s \<Rightarrow> s \<noteq> [])"

text \<open>\<open>v || d\<close> with a string default \<open>d\<close>.\<close>

definition js_or :: "string option \<Rightarrow> string \<Rightarrow> string" where
  "js_or v d = (case v of None \<Rightarrow> d | Some s \<Rightarrow> if s = [] then d else s)"

text \<open>A value inside a template literal: \<open>`${v}`\<close>.\<close>

definition template :: "string option \<Rightarrow> string" where
  "template v = (case v of None \<Rightarrow> ''undefined'' | Some s \<Rightarrow> s)"

text \<open>
  The outcomes of a handler other than a 2xx response: the 400 responses and a Mongoose
  validation failure passed to \<open>next\<close> (\<open>ValidationError\<close>), the 404 responses
  (\<open>NotFoundError\<close>), the 403 responses (\<open>AuthorizationError\<close>), a JavaScript
  \<open>TypeError\<close> caught by the handler's \<open>try\<close> and passed to \<open>next\<close>, and an error
  of the database for a query it refuses, passed to \<open>next\<close> too (\<open>PersistenceError\<close>).
\<close>

datatype error =
  ValidationError | NotFoundError | AuthorizationError | TypeError | PersistenceError

record user =
  u_id :: object_id
  role :: string
  firstName :: string
  lastName :: string

text \<open>\<open>`${req.user.firstName} ${req.user.lastName}`\<close>\<close>

definition fullName :: "user \<Rightarrow> string" where
  "fullName usr = firstName usr @ '' '' @ lastName usr"

section \<open>models/Request.js\<close>

record timelineEvent =
  ev_status :: "string option"
  ev_message :: string
  performedBy :: "object_id option"
  performedByName :: "string option"
  ev_timestamp :: date

record adminRemark =
  admin :: object_id
  adminName :: string
  remark :: string
  rm_timestamp :: date

record correction =
  currentValue :: "string option"
  requestedValue :: "string option"
  reason :: "string option"

record uploadedDocument =
  fileName :: string
  fileUrl :: string
  fileType :: string
  uploadedAt :: date

record request =
  rq_id :: object_id
  userId :: object_id
  requestType :: "string option"
  title :: "string option"
  description :: "string option"
  correctionDetails :: "correction option"
  uploadedDocuments :: "uploadedDocument list"
  status :: "string option"
  adminRemarks :: "adminRemark list"
  timeline :: "timelineEvent list"
  priority :: "string option"
  rejectionReason :: "string option"
  createdAt :: date
  updatedAt :: date
  expectedCompletionDate :: "date option"
  completedAt :: "date option"

definition requestType_enum :: "string list" where
  "requestType_enum =
     [''degree_certificate'', ''provisional_certificate'', ''migration_certificate'',
      ''transcript'', ''marksheet'', ''name_correction'', ''dob_correction'',
      ''retotaling'', ''rechecking'', ''other'']"

definition status_enum :: "string list" where
  "status_enum =
     [''submitted'', ''under_review'', ''correction_required'', ''approved'',
      ''rejected'', ''in_processing'', ''ready'', ''completed'']"

definition priority_enum :: "string list" where
  "priority_enum = [''low'', ''medium'', ''high'', ''urgent'']"

text \<open>
  The validators the schema declares, as Mongoose runs them: \<open>required\<close> on a String path
  rejects \<open>undefined\<close> and the empty string; \<open>enum\<close> accepts \<open>undefined\<close> and otherwise
  wants a listed value.
\<close>

definition required_ok :: "string option \<Rightarrow> bool" where
  "required_ok v = (case v of None \<Rightarrow> False | Some s \<Rightarrow> s \<noteq> [])"

definition enum_ok :: "string list \<Rightarrow> string option \<Rightarrow> bool" where
  "enum_ok vs v = (case v of None \<Rightarrow> True | Some s \<Rightarrow> s \<in> set vs)"

text \<open>\<open>timelineEventSchema\<close>: \<open>status\<close> and \<open>message\<close> are required.\<close>

definition validate_timelineEvent :: "timelineEvent \<Rightarrow> bool" where
  "validate_timelineEvent e = (required_ok (ev_status e) \<and> required_ok (Some (ev_message e)))"

text \<open>
  \<open>requestSchema\<close>: the validation \<open>save\<close> runs before the \<open>pre('save')\<close> hooks. The
  paths without a validator (\<open>correctionDetails\<close>, \<open>uploadedDocuments\<close>, \<open>adminRemarks\<close>,
  the dates, \<open>rejectionReason\<close>) do not occur; \<open>userId\<close> is required and always present.
  The model validates every path of the document. For a loaded document Mongoose
  validates the paths that were modified and the required ones; on a stored document, whose
  paths passed validation when it was written, the two agree.
\<close>

definition validate :: "request \<Rightarrow> bool" where
  "validate doc =
     (required_ok (requestType doc) \<and> enum_ok requestType_enum (requestType doc) \<and>
      required_ok (title doc) \<and>
      required_ok (description doc) \<and>
      enum_ok status_enum (status doc) \<and>
      list_all validate_timelineEvent (timeline doc) \<and>
      enum_ok priority_enum (priority doc))"

text \<open>
  \<open>requestSchema.pre('save', ...)\<close>: the seed event has neither \<open>performedBy\<close> nor
  \<open>performedByName\<close>.
\<close>

definition pre_save :: "bool \<Rightarrow> date \<Rightarrow> request \<Rightarrow> request" where
  "pre_save isNew now doc =
     (let doc1 =
        (if isNew
         then doc\<lparr>timeline := timeline doc @
                [\<lparr>ev_status = Some ''submitted'',
                  ev_message = ''Request submitted successfully'',
                  performedBy = None, performedByName = None,
                  ev_timestamp = now\<rparr>]\<rparr>
         else doc)
      in doc1\<lparr>updatedAt := now\<rparr>)"

section \<open>The collection\<close>

text \<open>
  The \<open>requests\<close> collection is the list of its documents in insertion order.
  \<open>findById\<close> returns the document with the given \<open>_id\<close>; a document it returns is not
  new (\<open>isNew\<close> is false), one built by \<open>Request.create\<close> is.
\<close>

type_synonym collection = "request list"

definition findById :: "collection \<Rightarrow> object_id \<Rightarrow> request option" where
  "findById db i = find (\<lambda>r. rq_id r = i) db"

text \<open>A new ObjectId differs from every \<open>_id\<close> of the collection.\<close>

definition new_ObjectId :: "collection \<Rightarrow> object_id" where
  "new_ObjectId db = Suc (foldr max (map rq_id db) 0)"

text \<open>Writing a loaded document back: the stored document with its \<open>_id\<close> is replaced.\<close>

fun replaceOne :: "collection \<Rightarrow> request \<Rightarrow> collection" where
  "replaceOne [] doc = []"
| "replaceOne (r # rs) doc = (if rq_id r = rq_id doc then doc # rs else r # replaceOne rs doc)"

text \<open>
  \<open>doc.save()\<close>: validate, run the \<open>pre('save')\<close> hook, write. A validation failure is
  thrown before anything is written; the handler's \<open>catch\<close> passes it to \<open>next\<close>.
\<close>

definition save :: "bool \<Rightarrow> date \<Rightarrow> collection \<Rightarrow> request \<Rightarrow> error + (request \<times> collection)" where
  "save isNew now db doc =
     (if \<not> validate doc then Inl ValidationError
      else let doc' = pre_save isNew now doc
           in Inr (doc', if isNew then db @ [doc'] else replaceOne db doc'))"

section \<open>The regular-expression operator of the database\<close>

text \<open>
  The database answers \<open>{$regex: pattern, $options: options}\<close> with its regular-expression
  library (PCRE): it rejects the query when the pattern does not compile, and otherwise
  tests whether the pattern matches somewhere in the value. The model fixes the operator
  on a core of the pattern language and takes the rest of the language as a parameter:
  \<^item> a core pattern is made of printable ASCII characters; its metacharacters are the dot
    (any character but a line feed), the quantifiers \<open>*\<close>, \<open>+\<close> and \<open>?\<close>, the bar and the
    parentheses; every other character stands for itself;
  \<^item> a pattern with a backslash, \<open>^\<close>, \<open>$\<close>, a bracket or a brace, with \<open>(?\<close> or \<open>(*\<close>, or
    with a quantifier right after a quantifier (lazy and possessive quantifiers) is outside
    the core, and so are options other than none and \<open>i\<close>, and values with a character that
    is not printable ASCII: there the operator is \<open>rest_valid\<close> and \<open>rest_match\<close>, about
    which nothing is assumed;
  \<^item> the limits the library puts on the work of one match are not modelled.
\<close>

definition lower :: "char \<Rightarrow> char" where
  "lower c =
     (case map_of (zip ''ABCDEFGHIJKLMNOPQRSTUVWXYZ'' ''abcdefghijklmnopqrstuvwxyz'') c of
        None \<Rightarrow> c
      | Some l \<Rightarrow> l)"

definition printable :: "char \<Rightarrow> bool" where
  "printable c = (32 \<le> (of_char c :: nat) \<and> (of_char c :: nat) \<le> 126)"

text \<open>Backslash, \<open>^\<close>, \<open>$\<close>, brackets and braces.\<close>

definition beyond_core :: "char list" where
  "beyond_core = CHR 0x5C # ''^$[]{}''"

fun core_pairs :: "string \<Rightarrow> bool" where
  "core_pairs (a # b # cs) =
     (\<not> (a \<in> set ''*+?'' \<and> b \<in> set ''*+?'') \<and>
      \<not> (a = CHR ''('' \<and> b \<in> set ''?*'') \<and>
      core_pairs (b # cs))"
| "core_pairs cs = True"

definition core_pattern :: "string \<Rightarrow> bool" where
  "core_pattern pat =
     (list_all printable pat \<and> list_all (\<lambda>c. c \<notin> set beyond_core) pat \<and> core_pairs pat)"

definition core_options :: "string \<Rightarrow> bool" where
  "core_options opts = (opts = [] \<or> opts = ''i'')"

definition core_text :: "string \<Rightarrow> bool" where
  "core_text s = list_all printable s"

text \<open>
  Core patterns as terms. \<open>parse_from\<close> reads a pattern from left to right; it holds the
  alternatives and the items of the group it is in (both latest first) and the groups
  around it. It fails on a parenthesis without its partner and on a quantifier with
  nothing to repeat, which is when the library refuses a core pattern.
\<close>

datatype rx = Nul | Eps | Chr char | Dot | Cat rx rx | Alt rx rx | Star rx

fun close_seq :: "rx list \<Rightarrow> rx" where
  "close_seq [] = Eps"
| "close_seq (x # xs) = foldl (\<lambda>acc y. Cat y acc) x xs"

fun close_group :: "rx list \<times> rx list \<Rightarrow> rx" where
  "close_group (alts, items) = foldl (\<lambda>acc a. Alt a acc) (close_seq items) alts"

fun quantified :: "char \<Rightarrow> rx \<Rightarrow> rx" where
  "quantified q x =
     (if q = CHR ''*'' then Star x else if q = CHR ''+'' then Cat x (Star x) else Alt x Eps)"

fun parse_from ::
  "rx list \<times> rx list \<Rightarrow> (rx list \<times> rx list) list \<Rightarrow> string \<Rightarrow> rx option" where
  "parse_from g stack [] = (if stack = [] then Some (close_group g) else None)"
| "parse_from (alts, items) stack (c # cs) =
     (if c = CHR ''('' then parse_from ([], []) ((alts, items) # stack) cs
      else if c = CHR '')'' then
        (case stack of
           [] \<Rightarrow> None
         | (palts, pitems) # st \<Rightarrow> parse_from (palts, close_group (alts, items) # pitems) st cs)
      else if c = CHR ''|'' then parse_from (close_seq items # alts, []) stack cs
      else if c \<in> set ''*+?'' then
        (case items of
           [] \<Rightarrow> None
         | x # xs \<Rightarrow> parse_from (alts, quantified c x # xs) stack cs)
      else parse_from (alts, (if c = CHR ''.'' then Dot else Chr c) # items) stack cs)"

definition parse :: "string \<Rightarrow> rx option" where
  "parse pat = parse_from ([], []) [] pat"

text \<open>
  Matching by derivatives: \<open>deriv i c r\<close> matches what \<open>r\<close> matches after a first
  character \<open>c\<close>, ignoring case when \<open>i\<close> holds. \<open>match_here\<close> looks for a match that starts
  at the head of the value, \<open>match_anywhere\<close> for one that starts anywhere in it.
\<close>

fun nullable :: "rx \<Rightarrow> bool" where
  "nullable Nul = False"
| "nullable Eps = True"
| "nullable (Chr c) = False"
| "nullable Dot = False"
| "nullable (Cat r s) = (nullable r \<and> nullable s)"
| "nullable (Alt r s) = (nullable r \<or> nullable s)"
| "nullable (Star r) = True"

fun deriv :: "bool \<Rightarrow> char \<Rightarrow> rx \<Rightarrow> rx" where
  "deriv i c Nul = Nul"
| "deriv i c Eps = Nul"
| "deriv i c (Chr d) = (if (if i then lower d = lower c else d = c) then Eps else Nul)"
| "deriv i c Dot = (if c = CHR 0x0A then Nul else Eps)"
| "deriv i c (Cat r s) =
     (if nullable r then Alt (Cat (deriv i c r) s) (deriv i c s) else Cat (deriv i c r) s)"
| "deriv i c (Alt r s) = Alt (deriv i c r) (deriv i c s)"
| "deriv i c (Star r) = Cat (deriv i c r) (Star r)"

fun match_here :: "bool \<Rightarrow> rx \<Rightarrow> string \<Rightarrow> bool" where
  "match_here i r [] = nullable r"
| "match_here i r (c # cs) = (nullable r \<or> match_here i (deriv i c r) cs)"

fun match_anywhere :: "bool \<Rightarrow> rx \<Rightarrow> string \<Rightarrow> bool" where
  "match_anywhere i r [] = nullable r"
| "match_anywhere i r (c # cs) = (match_here i r (c # cs) \<or> match_anywhere i r cs)"

text \<open>
  The operator: \<open>regex_valid\<close> tells whether the database accepts the pattern,
  \<open>regex_match\<close> whether an accepted pattern matches the value (for a pattern it refuses
  the query has failed before any value is tested).
\<close>

record regex_rest =
  rest_valid :: "string \<Rightarrow> string \<Rightarrow> bool"
  rest_match :: "string \<Rightarrow> string \<Rightarrow> string \<Rightarrow> bool"

definition regex_valid :: "regex_rest \<Rightarrow> string \<Rightarrow> string \<Rightarrow> bool" where
  "regex_valid rest pat opts =
     (if core_pattern pat \<and> core_options opts then parse pat \<noteq> None
      else rest_valid rest pat opts)"

definition regex_match :: "regex_rest \<Rightarrow> string \<Rightarrow> string \<Rightarrow> string \<Rightarrow> bool" where
  "regex_match rest pat opts s =
     (if core_pattern pat \<and> core_options opts \<and> core_text s
      then (case parse pat of
              None \<Rightarrow> False
            | Some r \<Rightarrow> match_anywhere (CHR ''i'' \<in> set opts) r s)
      else rest_match rest pat opts s)"

text \<open>A character that stands for itself in a core pattern.\<close>

definition ordinary :: "char \<Rightarrow> bool" where
  "ordinary c = (printable c \<and> c \<notin> set beyond_core \<and> c \<notin> set ''.*+?|()'')"

section \<open>controllers/requestController.js\<close>

subsection \<open>createRequest\<close>

record file_ref =
  f_fileName :: string
  f_fileUrl :: string
  f_fileType :: string

record create_body =
  b_requestType :: "string option"
  b_title :: "string option"
  b_description :: "string option"
  b_correctionDetails :: "correction option"
  b_uploadedDocuments :: "file_ref list option"
  b_priority :: "string option"

text \<open>
  \<open>Request.create({...})\<close> builds the document with the schema's defaults
  (\<open>status: 'submitted'\<close>, empty arrays, \<open>createdAt\<close>, \<open>updatedAt\<close> and \<open>uploadedAt\<close> now,
  the remaining paths undefined) and saves it as a new document.
\<close>

definition createRequest ::
  "date \<Rightarrow> collection \<Rightarrow> create_body \<Rightarrow> user \<Rightarrow> error + (request \<times> collection)" where
  "createRequest now db body usr =
     save True now db
       \<lparr>rq_id = new_ObjectId db,
        userId = u_id usr,
        requestType = b_requestType body,
        title = b_title body,
        description = b_description body,
        correctionDetails = b_correctionDetails body,
        uploadedDocuments =
          (case b_uploadedDocuments body of
             None \<Rightarrow> []
           | Some fs \<Rightarrow>
               map (\<lambda>f. \<lparr>fileName = f_fileName f, fileUrl = f_fileUrl f,
                          fileType = f_fileType f, uploadedAt = now\<rparr>) fs),
        status = Some ''submitted'',
        adminRemarks = [],
        timeline = [],
        priority = Some (js_or (b_priority body) ''medium''),
        rejectionReason = None,
        createdAt = now,
        updatedAt = now,
        expectedCompletionDate = None,
        completedAt = None\<rparr>"

subsection \<open>getRequestById\<close>



subsection \<open>getAllRequests\<close>

record list_query =
  q_status :: "string option"
  q_requestType :: "string option"
  q_priority :: "string option"
  q_search :: "string option"

text \<open>
  The query object: a key is set only for a truthy option. The two \<open>$or\<close> branches apply
  \<open>{$regex: search, $options: 'i'}\<close> to \<open>title\<close> and to \<open>description\<close>; a document
  without the field does not match.
\<close>

definition exact :: "string option \<Rightarrow> string option \<Rightarrow> bool" where
  "exact opt field = (if truthy opt then field = opt else True)"

definition regex_field :: "regex_rest \<Rightarrow> string \<Rightarrow> string \<Rightarrow> string option \<Rightarrow> bool" where
  "regex_field rest pat opts field =
     (case field of None \<Rightarrow> False | Some s \<Rightarrow> regex_match rest pat opts s)"

definition query_matches :: "regex_rest \<Rightarrow> list_query \<Rightarrow> request \<Rightarrow> bool" where
  "query_matches rest q r =
     (exact (q_status q) (status r) \<and>
      exact (q_requestType q) (requestType r) \<and>
      exact (q_priority q) (priority r) \<and>
      (if truthy (q_search q)
       then regex_field rest (template (q_search q)) ''i'' (title r) \<or>
            regex_field rest (template (q_search q)) ''i'' (description r)
       else True))"

text \<open>
  \<open>Request.find(query).sort({createdAt: -1})\<close>: the database refuses the query when the
  pattern of its \<open>$regex\<close> does not compile, and the handler's \<open>catch\<close> passes the error to
  \<open>next\<close>; otherwise the matching documents come descending by \<open>createdAt\<close>, those with
  equal \<open>createdAt\<close> in insertion order.
\<close>

definition getAllRequests :: "regex_rest \<Rightarrow> collection \<Rightarrow> list_query \<Rightarrow> error + request list" where
  "getAllRequests rest db q =
     (if truthy (q_search q) \<and> \<not> regex_valid rest (template (q_search q)) ''i''
      then Inl PersistenceError
      else Inr (sort_key (\<lambda>r. - int (createdAt r)) (filter (query_matches rest q) db)))"

subsection \<open>updateRequestStatus\<close>

record status_body =
  s_status :: "string option"
  s_message :: "string option"

definition updateRequestStatus ::
  "date \<Rightarrow> collection \<Rightarrow> object_id \<Rightarrow> status_body \<Rightarrow> user \<Rightarrow> error + (request \<times> collection)" where
  "updateRequestStatus now db i body usr =
     (case findById db i of
        None \<Rightarrow> Inl NotFoundError
      | Some request \<Rightarrow>
          let request1 = request\<lparr>status := s_status body\<rparr>;
              request2 = request1\<lparr>timeline := timeline request1 @
                [\<lparr>ev_status = s_status body,
                  ev_message =
                    js_or (s_message body) (''Status updated to '' @ template (s_status body)),
                  performedBy = Some (u_id usr),
                  performedByName = Some (fullName usr),
                  ev_timestamp = now\<rparr>]\<rparr>;
              request3 =
                (if s_status body = Some ''completed''
                 then request2\<lparr>completedAt := Some now\<rparr> else request2)
          in save False now db request3)"

subsection \<open>addRemark\<close>

record remark_body =
  r_remark :: "string option"

text \<open>
  Past the guard \<open>if (!remark)\<close> the remark is a non-empty string, the one \<open>template\<close>
  returns.
\<close>

definition addRemark ::
  "date \<Rightarrow> collection \<Rightarrow> object_id \<Rightarrow> remark_body \<Rightarrow> user \<Rightarrow> error + (request \<times> collection)" where
  "addRemark now db i body usr =
     (if \<not> truthy (r_remark body) then Inl ValidationError
      else case findById db i of
        None \<Rightarrow> Inl NotFoundError
      | Some request \<Rightarrow>
          let request1 = request\<lparr>adminRemarks := adminRemarks request @
                [\<lparr>admin = u_id usr, adminName = fullName usr,
                  remark = template (r_remark body), rm_timestamp = now\<rparr>]\<rparr>;
              request2 = request1\<lparr>timeline := timeline request1 @
                [\<lparr>ev_status = status request1,
                  ev_message = ''Admin added a remark: '' @ template (r_remark body),
                  performedBy = Some (u_id usr),
                  performedByName = Some (fullName usr),
                  ev_timestamp = now\<rparr>]\<rparr>
          in save False now db request2)"

subsection \<open>rejectRequest\<close>

record reject_body =
  j_reason :: "string option"

definition rejectRequest ::
  "date \<Rightarrow> collection \<Rightarrow> object_id \<Rightarrow> reject_body \<Rightarrow> user \<Rightarrow> error + (request \<times> collection)" where
  "rejectRequest now db i body usr =
     (if \<not> truthy (j_reason body) then Inl ValidationError
      else case findById db i of
        None \<Rightarrow> Inl NotFoundError
      | Some request \<Rightarrow>
          let request1 = request\<lparr>status := Some ''rejected''\<rparr>;
              request2 = request1\<lparr>rejectionReason := j_reason body\<rparr>;
              request3 = request2\<lparr>timeline := timeline request2 @
                [\<lparr>ev_status = Some ''rejected'',
                  ev_message = ''Request rejected: '' @ template (j_reason body),
                  performedBy = Some (u_id usr),
                  performedByName = Some (fullName usr),
                  ev_timestamp = now\<rparr>]\<rparr>
          in save False now db request3)"

subsection \<open>getRequestStats\<close>

text \<open>
  \<open>$group\<close> by \<open>'$status'\<close> with \<open>count: {$sum: 1}\<close>: one group for each value of
  \<open>status\<close> in the collection (\<open>null\<close> for a document without one).
\<close>

definition group_by_status :: "collection \<Rightarrow> (string option \<times> nat) list" where
  "group_by_status db =
     map (\<lambda>s. (s, length (filter (\<lambda>r. status r = s) db))) (remdups (map status db))"

text \<open>A group's \<open>_id\<close> as a property key: \<open>null\<close> becomes \<open>'null'\<close>.\<close>

definition property_key :: "string option \<Rightarrow> string" where
  "property_key k = (case k of None \<Rightarrow> ''null'' | Some s \<Rightarrow> s)"

record stats =
  total :: nat
  byStatus :: "string \<rightharpoonup> nat"

definition getRequestStats :: "collection \<Rightarrow> stats" where
  "getRequestStats db =
     \<lparr>total = length db,
      byStatus =
        fold (\<lambda>stat m. m(property_key (fst stat) \<mapsto> snd stat)) (group_by_status db) Map.empty\<rparr>"

section \<open>routes/requestRoutes.js\<close>

text \<open>
  Modelled from the spec: \<open>middleware/auth.js\<close> (\<open>protect\<close>, \<open>authorize\<close>) is not among
  the sources. \<open>protect\<close> supplies the authenticated principal \<open>req.user\<close>;
  \<open>authorize('admin')\<close> fails with \<open>AuthorizationError\<close> if the caller is not admin.
\<close>

definition authorize :: "string \<Rightarrow> user \<Rightarrow> error + unit" where
  "authorize r usr = (if role usr = r then Inr () else Inl AuthorizationError)"

text \<open>\<open>router.patch('/:id/status', protect, authorize('admin'), updateRequestStatus)\<close>\<close>

definition patch_status ::
  "date \<Rightarrow> collection \<Rightarrow> object_id \<Rightarrow> status_body \<Rightarrow> user \<Rightarrow> error + (request \<times> collection)" where
  "patch_status now db i body usr =
     (case authorize ''admin'' usr of
        Inl e \<Rightarrow> Inl e
      | Inr _ \<Rightarrow> updateRequestStatus now db i body usr)"

section \<open>Sequences of calls\<close>

text \<open>
  The four handlers that write, each called at a time. \<open>step\<close> is the collection after a
  call (a call that fails leaves it as it was), \<open>history\<close> lists the collection before
  the first call and after each call, and \<open>run_all\<close> is the collection after a sequence
  of calls that all succeed.
\<close>

datatype call =
  Create create_body user
| UpdateStatus object_id status_body user
| AddRemark object_id remark_body user
| Reject object_id reject_body user

fun handle :: "collection \<Rightarrow> date \<times> call \<Rightarrow> error + (request \<times> collection)" where
  "handle db (now, Create body usr) = createRequest now db body usr"
| "handle db (now, UpdateStatus i body usr) = updateRequestStatus now db i body usr"
| "handle db (now, AddRemark i body usr) = addRemark now db i body usr"
| "handle db (now, Reject i body usr) = rejectRequest now db i body usr"

text \<open>The \<open>:id\<close> of a call's route.\<close>

fun target :: "call \<Rightarrow> object_id option" where
  "target (Create body usr) = None"
| "target (UpdateStatus i body usr) = Some i"
| "target (AddRemark i body usr) = Some i"
| "target (Reject i body usr) = Some i"

text \<open>The principal \<open>req.user\<close> of a call.\<close>

fun caller :: "call \<Rightarrow> user" where
  "caller (Create body usr) = usr"
| "caller (UpdateStatus i body usr) = usr"
| "caller (AddRemark i body usr) = usr"
| "caller (Reject i body usr) = usr"

definition step :: "collection \<Rightarrow> date \<times> call \<Rightarrow> collection" where
  "step db c = (case handle db c of Inl e \<Rightarrow> db | Inr p \<Rightarrow> snd p)"

fun history :: "collection \<Rightarrow> (date \<times> call) list \<Rightarrow> collection list" where
  "history db [] = [db]"
| "history db (c # cs) = db # history (step db c) cs"

fun run_all :: "collection \<Rightarrow> (date \<times> call) list \<Rightarrow> collection option" where
  "run_all db [] = Some db"
| "run_all db (c # cs) =
     (case handle db c of Inl e \<Rightarrow> None | Inr p \<Rightarrow> run_all (snd p) cs)"

section \<open>Stored documents\<close>

text \<open>
  A document as the schema stores it: the validators pass and \<open>status\<close> has a value
  (the schema's default gives every new document one). Every document the handlers write
  is such a document (\<open>history_stored_ok\<close> below), so this is what "an existing request"
  means in the statements about one call.
\<close>

definition stored_ok :: "request \<Rightarrow> bool" where
  "stored_ok r = (validate r \<and> status r \<noteq> None)"

text \<open>
  A timeline as creation seeds it and the admin handlers extend it: the first entry is
  the system's, every later one names who performed it.
\<close>

definition seeded :: "request \<Rightarrow> bool" where
  "seeded r =
     (case timeline r of
        [] \<Rightarrow> False
      | e # es \<Rightarrow>
          performedBy e = None \<and> ev_status e = Some ''submitted'' \<and>
          ev_message e = ''Request submitted successfully'' \<and>
          list_all (\<lambda>e'. performedBy e' \<noteq> None) es)"

text \<open>The timeline events and the remark the handlers push, named for the proofs.\<close>

definition status_event :: "date \<Rightarrow> status_body \<Rightarrow> user \<Rightarrow> timelineEvent" where
  "status_event now body usr =
     \<lparr>ev_status = s_status body,
      ev_message = js_or (s_message body) (''Status updated to '' @ template (s_status body)),
      performedBy = Some (u_id usr), performedByName = Some (fullName usr),
      ev_timestamp = now\<rparr>"

definition remark_entry :: "date \<Rightarrow> remark_body \<Rightarrow> user \<Rightarrow> adminRemark" where
  "remark_entry now body usr =
     \<lparr>admin = u_id usr, adminName = fullName usr,
      remark = template (r_remark body), rm_timestamp = now\<rparr>"

definition remark_event :: "date \<Rightarrow> string option \<Rightarrow> remark_body \<Rightarrow> user \<Rightarrow> timelineEvent" where
  "remark_event now st body usr =
     \<lparr>ev_status = st,
      ev_message = ''Admin added a remark: '' @ template (r_remark body),
      performedBy = Some (u_id usr), performedByName = Some (fullName usr),
      ev_timestamp = now\<rparr>"

definition reject_event :: "date \<Rightarrow> reject_body \<Rightarrow> user \<Rightarrow> timelineEvent" where
  "reject_event now body usr =
     \<lparr>ev_status = Some ''rejected'',
      ev_message = ''Request rejected: '' @ template (j_reason body),
      performedBy = Some (u_id usr), performedByName = Some (fullName usr),
      ev_timestamp = now\<rparr>"

section \<open>The filter as the specification words it\<close>

text \<open>
  Every option that is present is a constraint: \<open>status\<close>, \<open>requestType\<close> and \<open>priority\<close>
  exact matches, \<open>search\<close> a case-insensitive substring match against \<open>title\<close> or
  \<open>description\<close>.
\<close>

definition ci_substring :: "string \<Rightarrow> string option \<Rightarrow> bool" where
  "ci_substring pat field =
     (case field of None \<Rightarrow> False | Some s \<Rightarrow> sublist (map lower pat) (map lower s))"

definition spec_exact :: "string option \<Rightarrow> string option \<Rightarrow> bool" where
  "spec_exact opt field = (case opt of None \<Rightarrow> True | Some v \<Rightarrow> field = Some v)"

definition spec_matches :: "list_query \<Rightarrow> request \<Rightarrow> bool" where
  "spec_matches q r =
     (spec_exact (q_status q) (status r) \<and>
      spec_exact (q_requestType q) (requestType r) \<and>
      spec_exact (q_priority q) (priority r) \<and>
      (case q_search q of
         None \<Rightarrow> True
       | Some pat \<Rightarrow> ci_substring pat (title r) \<or> ci_substring pat (description r)))"

section \<open>Example data\<close>

definition example_user :: user where
  "example_user = \<lparr>u_id = 1, role = ''user'', firstName = ''Asha'', lastName = ''Rao''\<rparr>"

definition example_admin :: user where
  "example_admin = \<lparr>u_id = 2, role = ''admin'', firstName = ''Ravi'', lastName = ''Kumar''\<rparr>"

definition example_other :: user where
  "example_other = \<lparr>u_id = 3, role = ''user'', firstName = ''Meera'', lastName = ''Nair''\<rparr>"

definition example_body :: create_body where
  "example_body =
     \<lparr>b_requestType = Some ''transcript'', b_title = Some ''Transcript'',
      b_description = Some ''Two copies'', b_correctionDetails = None,
      b_uploadedDocuments = None, b_priority = None\<rparr>"

definition example_request :: request where
  "example_request =
     \<lparr>rq_id = 1, userId = 1, requestType = Some ''transcript'', title = Some ''Transcript'',
      description = Some ''Two copies'', correctionDetails = None, uploadedDocuments = [],
      status = Some ''submitted'', adminRemarks = [],
      timeline =
        [\<lparr>ev_status = Some ''submitted'', ev_message = ''Request submitted successfully'',
          performedBy = None, performedByName = None, ev_timestamp = 7\<rparr>],
      priority = Some ''medium'', rejectionReason = None, createdAt = 7, updatedAt = 7,
      expectedCompletionDate = None, completedAt = None\<rparr>"

definition example_calls :: "(date \<times> call) list" where
  "example_calls =
     [(9, UpdateStatus 1 \<lparr>s_status = Some ''completed'', s_message = None\<rparr> example_admin),
      (10, AddRemark 1 \<lparr>r_remark = Some ''Seen''\<rparr> example_admin),
      (11, Reject 1 \<lparr>j_reason = Some ''Duplicate''\<rparr> example_admin)]"

definition example_final :: request where
  "example_final =
     example_request
       \<lparr>status := Some ''rejected'',
        adminRemarks :=
          [\<lparr>admin = 2, adminName = ''Ravi Kumar'', remark = ''Seen'', rm_timestamp = 10\<rparr>],
        timeline := timeline example_request @
          [\<lparr>ev_status = Some ''completed'', ev_message = ''Status updated to completed'',
            performedBy = Some 2, performedByName = Some ''Ravi Kumar'', ev_timestamp = 9\<rparr>,
           \<lparr>ev_status = Some ''completed'', ev_message = ''Admin added a remark: Seen'',
            performedBy = Some 2, performedByName = Some ''Ravi Kumar'', ev_timestamp = 10\<rparr>,
           \<lparr>ev_status = Some ''rejected'', ev_message = ''Request rejected: Duplicate'',
            performedBy = Some 2, performedByName = Some ''Ravi Kumar'', ev_timestamp = 11\<rparr>],
        rejectionReason := Some ''Duplicate'',
        updatedAt := 11,
        completedAt := Some 9\<rparr>"

text \<open>The creation of the example request followed by the example calls on it.\<close>

definition example_session :: "(date \<times> call) list" where
  "example_session = (7, Create example_body example_user) # example_calls"

text \<open>A collection of three \<open>submitted\<close> and two \<open>completed\<close> requests.\<close>

definition example_store :: collection where
  "example_store =
     [example_request,
      example_request\<lparr>rq_id := 2, status := Some ''completed''\<rparr>,
      example_request\<lparr>rq_id := 3\<rparr>,
      example_request\<lparr>rq_id := 4, status := Some ''completed''\<rparr>,
      example_request\<lparr>rq_id := 5\<rparr>]"

text \<open>Three requests, inserted in this order, and a filter on status.\<close>

definition example_listing :: collection where
  "example_listing =
     [example_request\<lparr>rq_id := 2, status := Some ''completed'', createdAt := 8\<rparr>,
      example_request,
      example_request\<lparr>rq_id := 3, status := Some ''completed'', createdAt := 9\<rparr>]"

definition example_completed :: list_query where
  "example_completed =
     \<lparr>q_status = Some ''completed'', q_requestType = Some [], q_priority = None,
      q_search = Some ''t.*T''\<rparr>"

text \<open>No option at all.\<close>

definition example_all :: list_query where
  "example_all =
     \<lparr>q_status = None, q_requestType = None, q_priority = None, q_search = None\<rparr>"

text \<open>A search for a single dot, one for an opening parenthesis, and an empty status.\<close>

definition example_query :: list_query where
  "example_query =
     \<lparr>q_status = None, q_requestType = None, q_priority = None, q_search = Some ''.''\<rparr>"

definition example_unclosed :: list_query where
  "example_unclosed =
     \<lparr>q_status = None, q_requestType = None, q_priority = None, q_search = Some ''(''\<rparr>"

definition example_blank :: list_query where
  "example_blank =
     \<lparr>q_status = Some [], q_requestType = None, q_priority = None, q_search = None\<rparr>"

text \<open>
  Some operator beyond the core; the example patterns and values are in the core, where it
  is not consulted.
\<close>

definition example_rest :: regex_rest where
  "example_rest = \<lparr>rest_valid = (\<lambda>pat opts. True), rest_match = (\<lambda>pat opts s. False)\<rparr>"


section \<open>Lemmas\<close>

subsection \<open>The collection and save\<close>

lemma findById_rq_id: "findById db i = Some r \<Longrightarrow> rq_id r = i"
  unfolding findById_def by (induction db) (auto split: if_splits)

lemma findById_in_set: "findById db i = Some r \<Longrightarrow> r \<in> set db"
  unfolding findById_def by (induction db) (auto split: if_splits)

lemma findById_replaceOne_same:
  "findById db (rq_id doc) = Some r \<Longrightarrow> findById (replaceOne db doc) (rq_id doc) = Some doc"
  unfolding findById_def by (induction db) auto

lemma findById_replaceOne_other:
  "i \<noteq> rq_id doc \<Longrightarrow> findById (replaceOne db doc) i = findById db i"
  unfolding findById_def by (induction db) auto

lemma findById_replaceOne:
  "findById db j = Some r \<Longrightarrow> rq_id doc = j \<Longrightarrow>
   findById (replaceOne db doc) i = (if i = j then Some doc else findById db i)"
  using findById_replaceOne_same [of db doc r] findById_replaceOne_other [of i doc db]
  by auto

lemma findById_append_found:
  "findById db i = Some r \<Longrightarrow> findById (db @ [doc]) i = Some r"
  unfolding findById_def by (induction db) auto

lemma findById_append:
  "findById (db @ [doc]) i =
     (case findById db i of Some r \<Rightarrow> Some r
      | None \<Rightarrow> if rq_id doc = i then Some doc else None)"
  unfolding findById_def by (induction db) auto

lemma set_replaceOne: "set (replaceOne db doc) \<subseteq> insert doc (set db)"
  by (induction db) auto


lemma pre_save_existing: "pre_save False now doc = doc\<lparr>updatedAt := now\<rparr>"
  by (simp add: pre_save_def)

lemma save_existing:
  "validate doc \<Longrightarrow>
   save False now db doc = Inr (doc\<lparr>updatedAt := now\<rparr>, replaceOne db (doc\<lparr>updatedAt := now\<rparr>))"
  by (simp add: save_def pre_save_existing Let_def)

lemma save_invalid: "\<not> validate doc \<Longrightarrow> save isNew now db doc = Inl ValidationError"
  by (simp add: save_def)

subsection \<open>The validators\<close>

lemma js_or_nonempty: "d \<noteq> [] \<Longrightarrow> js_or v d \<noteq> []"
  by (cases v) (auto simp: js_or_def)

lemma js_or_truthy: "js_or v d = (if truthy v then template v else d)"
  by (cases v) (auto simp: js_or_def truthy_def template_def)

lemma status_in_enum_nonempty: "s \<in> set status_enum \<Longrightarrow> s \<noteq> []"
  by (auto simp: status_enum_def)

lemma status_ok_iff:
  "(enum_ok status_enum v \<and> required_ok v) = (v \<in> Some ` set status_enum)"
  by (cases v) (auto simp: enum_ok_def required_ok_def dest: status_in_enum_nonempty)

lemma validate_frame [simp]:
  "validate (r\<lparr>completedAt := c\<rparr>) = validate r"
  "validate (r\<lparr>updatedAt := u\<rparr>) = validate r"
  "validate (r\<lparr>adminRemarks := a\<rparr>) = validate r"
  "validate (r\<lparr>rejectionReason := j\<rparr>) = validate r"
  by (simp_all add: validate_def)

lemma validate_push:
  "validate (r\<lparr>timeline := timeline r @ [e]\<rparr>) = (validate r \<and> validate_timelineEvent e)"
  by (auto simp: validate_def)

lemma validate_status:
  "validate r \<Longrightarrow> validate (r\<lparr>status := v\<rparr>) = enum_ok status_enum v"
  by (auto simp: validate_def)

lemma validate_status_only:
  "validate (r\<lparr>status := v\<rparr>) \<Longrightarrow> enum_ok status_enum v"
  by (auto simp: validate_def)

lemma validate_updated:
  "validate (r\<lparr>status := v, timeline := timeline r @ [e], completedAt := c\<rparr>) =
     (validate (r\<lparr>status := v\<rparr>) \<and> validate_timelineEvent e)"
  by (auto simp: validate_def)

lemma validate_status_event:
  "validate_timelineEvent (status_event now body usr) = required_ok (s_status body)"
  by (simp add: validate_timelineEvent_def status_event_def required_ok_def js_or_nonempty)

lemma validate_remarked:
  "validate (r\<lparr>adminRemarks := a, timeline := timeline r @ [e]\<rparr>) =
     (validate r \<and> validate_timelineEvent e)"
  by (auto simp: validate_def)

lemma validate_remark_event:
  "validate_timelineEvent (remark_event now st body usr) = required_ok st"
  by (simp add: validate_timelineEvent_def remark_event_def required_ok_def)



lemma stored_ok_status: "stored_ok r \<Longrightarrow> status r \<in> Some ` set status_enum"
  by (cases "status r") (auto simp: stored_ok_def validate_def enum_ok_def)

lemma stored_ok_required: "stored_ok r \<Longrightarrow> required_ok (status r)"
  using stored_ok_status [of r] status_ok_iff [of "status r"] by simp

subsection \<open>The handlers\<close>

lemma createRequest_Inr:
  assumes "createRequest now db body usr = Inr (r, db')"
  shows "db' = db @ [r] \<and> rq_id r = new_ObjectId db \<and> validate r \<and>
     status r = Some ''submitted'' \<and> completedAt r = None \<and> adminRemarks r = [] \<and>
     timeline r =
       [\<lparr>ev_status = Some ''submitted'', ev_message = ''Request submitted successfully'',
         performedBy = None, performedByName = None, ev_timestamp = now\<rparr>]"
  using assms
  by (auto simp: createRequest_def save_def pre_save_def Let_def validate_def
      validate_timelineEvent_def required_ok_def split: if_splits)

lemma updateRequestStatus_found:
  "findById db i = Some r \<Longrightarrow>
   updateRequestStatus now db i body usr =
     save False now db
       (r\<lparr>status := s_status body,
          timeline := timeline r @ [status_event now body usr],
          completedAt := (if s_status body = Some ''completed'' then Some now else completedAt r)\<rparr>)"
  by (simp add: updateRequestStatus_def Let_def status_event_def)

lemma updateRequestStatus_invalid:
  assumes "findById db i = Some r" and "s_status body \<notin> Some ` set status_enum"
  shows "updateRequestStatus now db i body usr = Inl ValidationError"
proof -
  have "\<not> (enum_ok status_enum (s_status body) \<and> required_ok (s_status body))"
    using assms(2) by (simp add: status_ok_iff)
  then have "\<not> validate (r\<lparr>status := s_status body,
          timeline := timeline r @ [status_event now body usr],
          completedAt := (if s_status body = Some ''completed'' then Some now else completedAt r)\<rparr>)"
    unfolding validate_updated validate_status_event
    using validate_status_only by blast
  then show ?thesis
    unfolding updateRequestStatus_found [OF assms(1)] by (rule save_invalid)
qed

lemma updateRequestStatus_valid:
  assumes "findById db i = Some r" and "validate r"
    and "s_status body \<in> Some ` set status_enum"
  shows "updateRequestStatus now db i body usr =
     Inr (r\<lparr>status := s_status body,
            timeline := timeline r @ [status_event now body usr],
            completedAt := (if s_status body = Some ''completed'' then Some now else completedAt r),
            updatedAt := now\<rparr>,
          replaceOne db
           (r\<lparr>status := s_status body,
            timeline := timeline r @ [status_event now body usr],
            completedAt := (if s_status body = Some ''completed'' then Some now else completedAt r),
            updatedAt := now\<rparr>))"
proof -
  have "enum_ok status_enum (s_status body) \<and> required_ok (s_status body)"
    using assms(3) by (simp add: status_ok_iff)
  then have "validate (r\<lparr>status := s_status body,
          timeline := timeline r @ [status_event now body usr],
          completedAt := (if s_status body = Some ''completed'' then Some now else completedAt r)\<rparr>)"
    unfolding validate_updated validate_status_event
    using validate_status [OF assms(2)] by blast
  then show ?thesis
    unfolding updateRequestStatus_found [OF assms(1)] by (simp add: save_existing)
qed

lemma updateRequestStatus_Inr:
  assumes "updateRequestStatus now db i body usr = Inr (r', db')"
  shows "\<exists>r. findById db i = Some r \<and> s_status body \<in> Some ` set status_enum \<and>
     r' = r\<lparr>status := s_status body,
            timeline := timeline r @ [status_event now body usr],
            completedAt := (if s_status body = Some ''completed'' then Some now else completedAt r),
            updatedAt := now\<rparr> \<and>
     db' = replaceOne db r' \<and> validate r'"
proof -
  obtain r where r: "findById db i = Some r"
    using assms by (auto simp: updateRequestStatus_def split: option.splits)
  have s: "s_status body \<in> Some ` set status_enum"
    using updateRequestStatus_invalid [OF r, of body now usr] assms by auto
  have "save False now db
       (r\<lparr>status := s_status body,
          timeline := timeline r @ [status_event now body usr],
          completedAt := (if s_status body = Some ''completed'' then Some now else completedAt r)\<rparr>)
       = Inr (r', db')"
    using assms unfolding updateRequestStatus_found [OF r] .
  then show ?thesis
    using r s by (auto simp: save_def pre_save_existing Let_def split: if_splits)
qed

lemma addRemark_found:
  "truthy (r_remark body) \<Longrightarrow> findById db i = Some r \<Longrightarrow>
   addRemark now db i body usr =
     save False now db
       (r\<lparr>adminRemarks := adminRemarks r @ [remark_entry now body usr],
          timeline := timeline r @ [remark_event now (status r) body usr]\<rparr>)"
  by (simp add: addRemark_def Let_def remark_entry_def remark_event_def)

lemma addRemark_valid:
  assumes "truthy (r_remark body)" and "findById db i = Some r" and "stored_ok r"
  shows "addRemark now db i body usr =
     Inr (r\<lparr>adminRemarks := adminRemarks r @ [remark_entry now body usr],
            timeline := timeline r @ [remark_event now (status r) body usr],
            updatedAt := now\<rparr>,
          replaceOne db
           (r\<lparr>adminRemarks := adminRemarks r @ [remark_entry now body usr],
              timeline := timeline r @ [remark_event now (status r) body usr],
              updatedAt := now\<rparr>))"
proof -
  have "validate (r\<lparr>adminRemarks := adminRemarks r @ [remark_entry now body usr],
          timeline := timeline r @ [remark_event now (status r) body usr]\<rparr>)"
    unfolding validate_remarked validate_remark_event
    using assms(3) stored_ok_required by (simp add: stored_ok_def)
  then show ?thesis
    unfolding addRemark_found [OF assms(1,2)] by (simp add: save_existing)
qed

lemma addRemark_Inr:
  assumes "addRemark now db i body usr = Inr (r', db')"
  shows "\<exists>r. findById db i = Some r \<and> truthy (r_remark body) \<and>
     r' = r\<lparr>adminRemarks := adminRemarks r @ [remark_entry now body usr],
            timeline := timeline r @ [remark_event now (status r) body usr],
            updatedAt := now\<rparr> \<and>
     db' = replaceOne db r' \<and> validate r' \<and> required_ok (status r)"
proof -
  have t: "truthy (r_remark body)"
    using assms by (auto simp: addRemark_def split: if_splits)
  then obtain r where r: "findById db i = Some r"
    using assms by (auto simp: addRemark_def split: option.splits)
  have "save False now db
       (r\<lparr>adminRemarks := adminRemarks r @ [remark_entry now body usr],
          timeline := timeline r @ [remark_event now (status r) body usr]\<rparr>) = Inr (r', db')"
    using assms unfolding addRemark_found [OF t r] .
  then have "r' = r\<lparr>adminRemarks := adminRemarks r @ [remark_entry now body usr],
            timeline := timeline r @ [remark_event now (status r) body usr],
            updatedAt := now\<rparr> \<and> db' = replaceOne db r' \<and>
      validate (r\<lparr>adminRemarks := adminRemarks r @ [remark_entry now body usr],
          timeline := timeline r @ [remark_event now (status r) body usr]\<rparr>)"
    by (auto simp: save_def pre_save_existing Let_def split: if_splits)
  then show ?thesis
    using r t by (auto simp: validate_remarked validate_remark_event)
qed

lemma rejectRequest_found:
  "truthy (j_reason body) \<Longrightarrow> findById db i = Some r \<Longrightarrow>
   rejectRequest now db i body usr =
     save False now db
       (r\<lparr>status := Some ''rejected'', rejectionReason := j_reason body,
          timeline := timeline r @ [reject_event now body usr]\<rparr>)"
  by (simp add: rejectRequest_def Let_def reject_event_def)


lemma rejectRequest_Inr:
  assumes "rejectRequest now db i body usr = Inr (r', db')"
  shows "\<exists>r. findById db i = Some r \<and> truthy (j_reason body) \<and>
     r' = r\<lparr>status := Some ''rejected'', rejectionReason := j_reason body,
            timeline := timeline r @ [reject_event now body usr], updatedAt := now\<rparr> \<and>
     db' = replaceOne db r' \<and> validate r'"
proof -
  have t: "truthy (j_reason body)"
    using assms by (auto simp: rejectRequest_def split: if_splits)
  then obtain r where r: "findById db i = Some r"
    using assms by (auto simp: rejectRequest_def split: option.splits)
  have "save False now db
       (r\<lparr>status := Some ''rejected'', rejectionReason := j_reason body,
          timeline := timeline r @ [reject_event now body usr]\<rparr>) = Inr (r', db')"
    using assms unfolding rejectRequest_found [OF t r] .
  then show ?thesis
    using r t by (auto simp: save_def pre_save_existing Let_def split: if_splits)
qed

subsection \<open>The effect of one call\<close>

lemma handle_Inr_cases:
  assumes "handle db c = Inr (r', db')"
  shows "(target (snd c) = None \<and> db' = db @ [r'] \<and> rq_id r' = new_ObjectId db \<and>
          validate r' \<and> status r' = Some ''submitted'' \<and> completedAt r' = None \<and>
          adminRemarks r' = [] \<and>
          timeline r' =
            [\<lparr>ev_status = Some ''submitted'', ev_message = ''Request submitted successfully'',
              performedBy = None, performedByName = None, ev_timestamp = fst c\<rparr>]) \<or>
         (\<exists>j r. target (snd c) = Some j \<and> findById db j = Some r \<and> rq_id r' = j \<and>
            db' = replaceOne db r' \<and> validate r' \<and> status r' \<noteq> None \<and>
            (\<exists>e. timeline r' = timeline r @ [e] \<and> performedBy e = Some (u_id (caller (snd c)))) \<and>
            (adminRemarks r' = adminRemarks r \<or> (\<exists>a. adminRemarks r' = adminRemarks r @ [a])) \<and>
            (completedAt r' = completedAt r \<and>
               (status r' = status r \<or> status r' \<noteq> Some ''completed'') \<or>
             status r' = Some ''completed'' \<and> completedAt r' = Some (fst c)))"
proof (cases c)
  case (Pair now cl)
  show ?thesis
  proof (cases cl)
    case (Create body usr)
    with Pair assms have "createRequest now db body usr = Inr (r', db')" by simp
    from createRequest_Inr [OF this] Pair Create show ?thesis by simp
  next
    case (UpdateStatus j body usr)
    with Pair assms have "updateRequestStatus now db j body usr = Inr (r', db')" by simp
    from updateRequestStatus_Inr [OF this] obtain r where
      r: "findById db j = Some r" "s_status body \<in> Some ` set status_enum"
        "r' = r\<lparr>status := s_status body,
            timeline := timeline r @ [status_event now body usr],
            completedAt := (if s_status body = Some ''completed'' then Some now else completedAt r),
            updatedAt := now\<rparr>"
        "db' = replaceOne db r'" "validate r'" by blast
    have id: "rq_id r' = j" using findById_rq_id [OF r(1)] r(3) by simp
    have st: "status r' \<noteq> None" using r(2,3) by auto
    have tl: "\<exists>e. timeline r' = timeline r @ [e] \<and> performedBy e = Some (u_id usr)"
      using r(3) by (simp add: status_event_def)
    have rm: "adminRemarks r' = adminRemarks r" using r(3) by simp
    have ca: "completedAt r' = completedAt r \<and>
               (status r' = status r \<or> status r' \<noteq> Some ''completed'') \<or>
             status r' = Some ''completed'' \<and> completedAt r' = Some now"
      using r(3) by simp
    show ?thesis
      using Pair UpdateStatus r(1,4,5) id st tl rm ca by simp
  next
    case (AddRemark j body usr)
    with Pair assms have "addRemark now db j body usr = Inr (r', db')" by simp
    from addRemark_Inr [OF this] obtain r where
      r: "findById db j = Some r"
        "r' = r\<lparr>adminRemarks := adminRemarks r @ [remark_entry now body usr],
            timeline := timeline r @ [remark_event now (status r) body usr],
            updatedAt := now\<rparr>"
        "db' = replaceOne db r'" "validate r'" "required_ok (status r)" by blast
    have id: "rq_id r' = j" using findById_rq_id [OF r(1)] r(2) by simp
    have st: "status r' \<noteq> None"
      using r(2,5) by (auto simp: required_ok_def split: option.splits)
    have tl: "\<exists>e. timeline r' = timeline r @ [e] \<and> performedBy e = Some (u_id usr)"
      using r(2) by (simp add: remark_event_def)
    have rm: "\<exists>a. adminRemarks r' = adminRemarks r @ [a]" using r(2) by simp
    have ca: "completedAt r' = completedAt r \<and> status r' = status r"
      using r(2) by simp
    show ?thesis
      using Pair AddRemark r(1,3,4) id st tl rm ca by simp
  next
    case (Reject j body usr)
    with Pair assms have "rejectRequest now db j body usr = Inr (r', db')" by simp
    from rejectRequest_Inr [OF this] obtain r where
      r: "findById db j = Some r"
        "r' = r\<lparr>status := Some ''rejected'', rejectionReason := j_reason body,
            timeline := timeline r @ [reject_event now body usr], updatedAt := now\<rparr>"
        "db' = replaceOne db r'" "validate r'" by blast
    have id: "rq_id r' = j" using findById_rq_id [OF r(1)] r(2) by simp
    have st: "status r' \<noteq> None" using r(2) by simp
    have tl: "\<exists>e. timeline r' = timeline r @ [e] \<and> performedBy e = Some (u_id usr)"
      using r(2) by (simp add: reject_event_def)
    have rm: "adminRemarks r' = adminRemarks r" using r(2) by simp
    have ca: "completedAt r' = completedAt r \<and> status r' \<noteq> Some ''completed''"
      using r(2) by simp
    show ?thesis
      using Pair Reject r(1,3,4) id st tl rm ca by simp
  qed
qed

lemma handle_target_found:
  assumes "handle db c = Inr (r', db')" and "findById db i = Some r"
  shows "\<exists>r''. findById db' i = Some r'' \<and>
     (if target (snd c) = Some i
      then (\<exists>e. timeline r'' = timeline r @ [e]) \<and>
           (adminRemarks r'' = adminRemarks r \<or> (\<exists>a. adminRemarks r'' = adminRemarks r @ [a]))
      else r'' = r)"
proof -
  from handle_Inr_cases [OF assms(1)]
  consider (created) "target (snd c) = None" "db' = db @ [r']"
    | (written) j r0 where "target (snd c) = Some j" "findById db j = Some r0" "rq_id r' = j"
        "db' = replaceOne db r'" "\<exists>e. timeline r' = timeline r0 @ [e]"
        "adminRemarks r' = adminRemarks r0 \<or> (\<exists>a. adminRemarks r' = adminRemarks r0 @ [a])"
    by (elim disjE exE conjE; blast)
  then show ?thesis
  proof cases
    case created
    then show ?thesis using assms(2) by (simp add: findById_append)
  next
    case written
    show ?thesis
    proof (cases "i = j")
      case True
      with written(2) assms(2) have "r0 = r" by simp
      with True written findById_replaceOne [OF written(2,3), of i] show ?thesis by auto
    next
      case False
      with written(1,4) findById_replaceOne [OF written(2,3), of i] assms(2)
      show ?thesis by auto
    qed
  qed
qed

lemma step_findById_None:
  assumes "findById db i = None" and "findById (step db c) i = Some r'"
  shows "status r' = Some ''submitted'' \<and> completedAt r' = None"
proof (cases "handle db c")
  case (Inl e)
  with assms show ?thesis by (simp add: step_def)
next
  case (Inr p)
  obtain r1 db1 where p: "p = (r1, db1)" by (cases p)
  with Inr have h: "handle db c = Inr (r1, db1)" by simp
  have s: "step db c = db1" using h by (simp add: step_def)
  from handle_Inr_cases [OF h]
  consider (new) "db1 = db @ [r1]" "status r1 = Some ''submitted''" "completedAt r1 = None"
    | (old) j r0 where "findById db j = Some r0" "rq_id r1 = j" "db1 = replaceOne db r1"
    by (elim disjE exE conjE; blast)
  then show ?thesis
  proof cases
    case new
    with assms s show ?thesis by (auto simp: findById_append split: if_splits)
  next
    case old
    with assms s findById_replaceOne [OF old(1,2), of i] show ?thesis
      by (auto split: if_splits)
  qed
qed

lemma step_findById_Some:
  assumes "findById db i = Some r"
  shows "\<exists>r'. findById (step db c) i = Some r' \<and>
     (r' = r \<or>
      completedAt r' = completedAt r \<and> (status r' = status r \<or> status r' \<noteq> Some ''completed'') \<or>
      status r' = Some ''completed'' \<and> completedAt r' \<noteq> None)"
proof (cases "handle db c")
  case (Inl e)
  with assms show ?thesis by (simp add: step_def)
next
  case (Inr p)
  obtain r1 db1 where p: "p = (r1, db1)" by (cases p)
  with Inr have h: "handle db c = Inr (r1, db1)" by simp
  have s: "step db c = db1" using h by (simp add: step_def)
  from handle_Inr_cases [OF h]
  consider (new) "db1 = db @ [r1]"
    | (old) j r0 where "findById db j = Some r0" "rq_id r1 = j" "db1 = replaceOne db r1"
        "completedAt r1 = completedAt r0 \<and>
           (status r1 = status r0 \<or> status r1 \<noteq> Some ''completed'') \<or>
         status r1 = Some ''completed'' \<and> completedAt r1 = Some (fst c)"
    by (elim disjE exE conjE; blast)
  then show ?thesis
  proof cases
    case new
    with assms s show ?thesis by (simp add: findById_append)
  next
    case old
    show ?thesis
    proof (cases "i = j")
      case True
      with old(1) assms have "r0 = r" by simp
      with True old s findById_replaceOne [OF old(1,2), of i] show ?thesis by auto
    next
      case False
      with old s findById_replaceOne [OF old(1,2), of i] assms show ?thesis by auto
    qed
  qed
qed

subsection \<open>Histories\<close>

lemma history_first: "db \<in> set (history db cs)"
  by (cases cs) simp_all

lemma last_history_in: "last (history db cs) \<in> set (history db cs)"
  by (cases cs) simp_all

lemma run_all_history: "run_all db cs = Some db' \<Longrightarrow> last (history db cs) = db'"
proof (induction cs arbitrary: db)
  case Nil
  then show ?case by simp
next
  case (Cons c cs)
  from Cons.prems obtain p where p: "handle db c = Inr p" "run_all (snd p) cs = Some db'"
    by (auto split: sum.splits)
  have "step db c = snd p" using p(1) by (simp add: step_def)
  moreover have "history (snd p) cs \<noteq> []" by (cases cs) simp_all
  ultimately show ?case using Cons.IH [OF p(2)] by simp
qed

lemma step_invariant:
  assumes created: "\<And>db c r' db'. handle db c = Inr (r', db') \<Longrightarrow> target (snd c) = None \<Longrightarrow> P r'"
    and written: "\<And>db c r' db' j r. handle db c = Inr (r', db') \<Longrightarrow> target (snd c) = Some j \<Longrightarrow>
        findById db j = Some r \<Longrightarrow> P r \<Longrightarrow> P r'"
    and inv: "\<forall>r\<in>set db. P r"
  shows "\<forall>r\<in>set (step db c). P r"
proof (cases "handle db c")
  case (Inl e)
  then show ?thesis using inv by (simp add: step_def)
next
  case (Inr p)
  obtain r' db' where p: "p = (r', db')" by (cases p)
  with Inr have h: "handle db c = Inr (r', db')" by simp
  have s: "step db c = db'" using h by (simp add: step_def)
  from handle_Inr_cases [OF h]
  consider (new) "target (snd c) = None" "db' = db @ [r']"
    | (old) j r0 where "target (snd c) = Some j" "findById db j = Some r0"
        "db' = replaceOne db r'"
    by (elim disjE exE conjE; blast)
  then show ?thesis
  proof cases
    case new
    with created [OF h] inv s show ?thesis by auto
  next
    case old
    have "P r0" using inv findById_in_set [OF old(2)] by blast
    then have "P r'" using written [OF h old(1,2)] by blast
    with inv s old(3) set_replaceOne [of db r'] show ?thesis by auto
  qed
qed

lemma history_invariant:
  assumes created: "\<And>db c r' db'. handle db c = Inr (r', db') \<Longrightarrow> target (snd c) = None \<Longrightarrow> P r'"
    and written: "\<And>db c r' db' j r. handle db c = Inr (r', db') \<Longrightarrow> target (snd c) = Some j \<Longrightarrow>
        findById db j = Some r \<Longrightarrow> P r \<Longrightarrow> P r'"
    and inv: "\<forall>r\<in>set db. P r"
  shows "\<forall>d\<in>set (history db cs). \<forall>r\<in>set d. P r"
  using inv
proof (induction cs arbitrary: db)
  case Nil
  then show ?case by simp
next
  case (Cons c cs)
  have "\<forall>r\<in>set (step db c). P r"
    by (rule step_invariant [of P, OF created written Cons.prems])
  from Cons.IH [OF this] Cons.prems show ?case by simp
qed

lemma history_stored_ok:
  assumes "d \<in> set (history [] cs)" and "r \<in> set d"
  shows "stored_ok r"
proof -
  have "\<forall>d\<in>set (history [] cs). \<forall>r\<in>set d. stored_ok r"
  proof (rule history_invariant)
    fix db c r' db'
    assume "handle db c = Inr (r', db')" and "target (snd c) = None"
    with handle_Inr_cases [of db c r' db'] show "stored_ok r'"
      by (auto simp: stored_ok_def)
  next
    fix db c r' db' j r
    assume "handle db c = Inr (r', db')" and "target (snd c) = Some j"
    with handle_Inr_cases [of db c r' db'] show "stored_ok r'"
      by (auto simp: stored_ok_def)
  qed simp
  with assms show ?thesis by blast
qed

lemma history_seeded:
  assumes "d \<in> set (history [] cs)" and "r \<in> set d"
  shows "seeded r"
proof -
  have "\<forall>d\<in>set (history [] cs). \<forall>r\<in>set d. seeded r"
  proof (rule history_invariant)
    fix db c r' db'
    assume "handle db c = Inr (r', db')" and "target (snd c) = None"
    with handle_Inr_cases [of db c r' db'] show "seeded r'"
      by (auto simp: seeded_def)
  next
    fix db c r' db' j r
    assume h: "handle db c = Inr (r', db')" and t: "target (snd c) = Some j"
      and f: "findById db j = Some r" and s: "seeded r"
    from handle_Inr_cases [OF h] t f
    obtain e where "timeline r' = timeline r @ [e]" "performedBy e \<noteq> None"
      by auto
    with s show "seeded r'"
      by (auto simp: seeded_def split: list.splits)
  qed simp
  with assms show ?thesis by blast
qed

lemma completedAt_history:
  assumes "\<forall>r. findById db i = Some r \<longrightarrow> status r = Some ''completed'' \<longrightarrow> completedAt r \<noteq> None"
    and "findById (last (history db cs)) i = Some r'"
  shows "completedAt r' \<noteq> None \<longleftrightarrow>
     (\<exists>r. findById db i = Some r \<and> completedAt r \<noteq> None) \<or>
     (\<exists>d\<in>set (history db cs). \<exists>r0. findById d i = Some r0 \<and> status r0 = Some ''completed'')"
  using assms
proof (induction cs arbitrary: db)
  case Nil
  then show ?case by auto
next
  case (Cons c cs)
  let ?db1 = "step db c"
  have ne: "history ?db1 cs \<noteq> []" using history_first [of ?db1 cs] by auto
  have inv1: "\<forall>r. findById ?db1 i = Some r \<longrightarrow> status r = Some ''completed'' \<longrightarrow>
      completedAt r \<noteq> None"
  proof (intro allI impI)
    fix r1 assume f1: "findById ?db1 i = Some r1" and c1: "status r1 = Some ''completed''"
    show "completedAt r1 \<noteq> None"
    proof (cases "findById db i")
      case None
      from step_findById_None [OF None f1] c1 show ?thesis by simp
    next
      case (Some r)
      from step_findById_Some [OF Some, of c] f1 c1 Cons.prems(1) Some show ?thesis by auto
    qed
  qed
  have last1: "findById (last (history ?db1 cs)) i = Some r'"
    using Cons.prems(2) ne by simp
  note IH = Cons.IH [OF inv1 last1]
  have f1: "(\<exists>r1. findById ?db1 i = Some r1 \<and> completedAt r1 \<noteq> None) \<Longrightarrow>
      (\<exists>r. findById db i = Some r \<and> completedAt r \<noteq> None) \<or>
      (\<exists>r0. findById ?db1 i = Some r0 \<and> status r0 = Some ''completed'')"
  proof -
    assume "\<exists>r1. findById ?db1 i = Some r1 \<and> completedAt r1 \<noteq> None"
    then obtain r1 where r1: "findById ?db1 i = Some r1" "completedAt r1 \<noteq> None" by blast
    show ?thesis
    proof (cases "findById db i")
      case None
      from step_findById_None [OF None r1(1)] r1(2) show ?thesis by simp
    next
      case (Some r)
      from step_findById_Some [OF Some, of c] r1 Some show ?thesis by auto
    qed
  qed
  have f2: "(\<exists>r. findById db i = Some r \<and> completedAt r \<noteq> None) \<Longrightarrow>
      (\<exists>r1. findById ?db1 i = Some r1 \<and> completedAt r1 \<noteq> None)"
  proof -
    assume "\<exists>r. findById db i = Some r \<and> completedAt r \<noteq> None"
    then obtain r where r: "findById db i = Some r" "completedAt r \<noteq> None" by blast
    from step_findById_Some [OF r(1), of c] r(2) show ?thesis by auto
  qed
  have f3: "(\<exists>r0. findById db i = Some r0 \<and> status r0 = Some ''completed'') \<Longrightarrow>
      (\<exists>r. findById db i = Some r \<and> completedAt r \<noteq> None)"
    using Cons.prems(1) by blast
  have f4: "(\<exists>r0. findById ?db1 i = Some r0 \<and> status r0 = Some ''completed'') \<Longrightarrow>
      (\<exists>d\<in>set (history ?db1 cs). \<exists>r0. findById d i = Some r0 \<and> status r0 = Some ''completed'')"
    using history_first [of ?db1 cs] by blast
  have hist: "set (history db (c # cs)) = insert db (set (history ?db1 cs))" by simp
  show ?case
    unfolding hist using IH f1 f2 f3 f4 by blast
qed

subsection \<open>The regular-expression operator\<close>

text \<open>
  On the core the operator does not depend on what is assumed beyond it, and for a search
  text of ordinary characters it is the case-insensitive substring match.
\<close>

lemma regex_core_independent:
  assumes "core_pattern pat" and "core_options opts"
  shows "regex_valid rest pat opts = regex_valid rest' pat opts"
    and "core_text s \<Longrightarrow> regex_match rest pat opts s = regex_match rest' pat opts s"
  using assms by (simp_all add: regex_valid_def regex_match_def)

lemma parse_from_ordinary:
  "list_all ordinary p \<Longrightarrow>
   parse_from (alts, items) stack p =
     parse_from (alts, rev (map Chr p) @ items) stack []"
proof (induction p arbitrary: items)
  case Nil
  then show ?case by simp
next
  case (Cons c p)
  then have c: "c \<noteq> CHR ''(''" "c \<noteq> CHR '')''" "c \<noteq> CHR ''|''" "c \<notin> set ''*+?''"
    "c \<noteq> CHR ''.''"
    by (auto simp: ordinary_def)
  from Cons have "list_all ordinary p" by simp
  from Cons.IH [OF this, of "Chr c # items"] c show ?case by simp
qed

lemma close_seq_snoc:
  "close_seq (rev (map Chr (p @ [c]))) = foldr Cat (map Chr p) (Chr c)"
  by (simp add: foldl_conv_foldr)

lemma parse_ordinary:
  "list_all ordinary (p @ [c]) \<Longrightarrow> parse (p @ [c]) = Some (foldr Cat (map Chr p) (Chr c))"
  using parse_from_ordinary [of "p @ [c]" "[]" "[]" "[]"] close_seq_snoc [of p c]
  by (simp add: parse_def)

lemma core_pairs_ordinary: "list_all ordinary p \<Longrightarrow> core_pairs p"
  by (induction p rule: core_pairs.induct) (auto simp: ordinary_def)

lemma core_pattern_ordinary: "list_all ordinary p \<Longrightarrow> core_pattern p"
  using core_pairs_ordinary [of p]
  by (auto simp: core_pattern_def ordinary_def list_all_iff)

lemma match_here_Nul: "match_here i Nul s = False"
  by (induction s) auto

lemma match_here_Eps: "match_here i Eps s = True"
  by (cases s) auto

lemma match_here_Cat_Nul: "match_here i (Cat Nul r) s = False"
  by (induction s) auto

lemma match_here_Alt: "match_here i (Alt a b) s = (match_here i a s \<or> match_here i b s)"
  by (induction s arbitrary: a b) auto

lemma match_here_Cat_Eps: "match_here i (Cat Eps r) s = match_here i r s"
  by (induction s arbitrary: r) (auto simp: match_here_Alt match_here_Cat_Nul)

lemma match_here_literal:
  "match_here True (foldr Cat (map Chr p) (Chr c)) s =
     prefix (map lower (p @ [c])) (map lower s)"
proof (induction p arbitrary: s)
  case Nil
  then show ?case
    by (cases s) (auto simp: match_here_Nul match_here_Eps)
next
  case (Cons d p)
  then show ?case
    by (cases s) (auto simp: match_here_Cat_Eps match_here_Cat_Nul)
qed

lemma match_anywhere_literal:
  "match_anywhere True (foldr Cat (map Chr p) (Chr c)) s =
     sublist (map lower (p @ [c])) (map lower s)"
proof (induction s)
  case Nil
  have "\<not> nullable (foldr Cat (map Chr p) (Chr c))" by (induction p) auto
  then show ?case by simp
next
  case (Cons x s)
  have "match_anywhere True (foldr Cat (map Chr p) (Chr c)) (x # s) =
      (match_here True (foldr Cat (map Chr p) (Chr c)) (x # s) \<or>
       match_anywhere True (foldr Cat (map Chr p) (Chr c)) s)"
    by simp
  also have "\<dots> = (prefix (map lower (p @ [c])) (map lower (x # s)) \<or>
      sublist (map lower (p @ [c])) (map lower s))"
    unfolding match_here_literal Cons.IH ..
  also have "\<dots> = sublist (map lower (p @ [c])) (map lower (x # s))"
    by (simp add: sublist_Cons_right)
  finally show ?case .
qed

lemma regex_match_ordinary:
  assumes "pat \<noteq> []" and "list_all ordinary pat" and "core_text s"
  shows "regex_valid rest pat ''i''"
    and "regex_match rest pat ''i'' s = sublist (map lower pat) (map lower s)"
proof -
  from assms(1) obtain p c where pc: "pat = p @ [c]"
    by (metis rev_exhaust)
  have core: "core_pattern pat" by (rule core_pattern_ordinary [OF assms(2)])
  have opts: "core_options ''i''" by (simp add: core_options_def)
  have parse: "parse pat = Some (foldr Cat (map Chr p) (Chr c))"
    using parse_ordinary [of p c] assms(2) pc by simp
  show "regex_valid rest pat ''i''"
    using core opts parse by (simp add: regex_valid_def)
  show "regex_match rest pat ''i'' s = sublist (map lower pat) (map lower s)"
    using core opts parse assms(3) match_anywhere_literal [of p c s] pc
    by (simp add: regex_match_def)
qed

subsection \<open>The groups of getRequestStats\<close>

lemma byStatus_fold_other:
  "k \<notin> (\<lambda>stat. property_key (fst stat)) ` set xs \<Longrightarrow>
   fold (\<lambda>stat m. m(property_key (fst stat) \<mapsto> snd stat)) xs m k = m k"
  by (induction xs arbitrary: m) auto

lemma byStatus_fold_entry:
  "distinct (map (\<lambda>stat. property_key (fst stat)) xs) \<Longrightarrow> (a, n) \<in> set xs \<Longrightarrow>
   fold (\<lambda>stat m. m(property_key (fst stat) \<mapsto> snd stat)) xs m (property_key a) = Some n"
proof (induction xs arbitrary: m)
  case Nil
  then show ?case by simp
next
  case (Cons x xs)
  show ?case
  proof (cases "x = (a, n)")
    case True
    then have "property_key a \<notin> (\<lambda>stat. property_key (fst stat)) ` set xs"
      using Cons.prems(1) by auto
    from byStatus_fold_other [OF this, of "m(property_key a \<mapsto> n)"]
    have "fold (\<lambda>stat m. m(property_key (fst stat) \<mapsto> snd stat)) xs
        (m(property_key a \<mapsto> n)) (property_key a) = Some n"
      by simp
    moreover have "fold (\<lambda>stat m. m(property_key (fst stat) \<mapsto> snd stat)) (x # xs) m =
        fold (\<lambda>stat m. m(property_key (fst stat) \<mapsto> snd stat)) xs (m(property_key a \<mapsto> n))"
      using True by simp
    ultimately show ?thesis by (simp only:)
  next
    case False
    with Cons show ?thesis by simp
  qed
qed

lemma property_key_inj: "a \<noteq> None \<Longrightarrow> b \<noteq> None \<Longrightarrow> property_key a = property_key b \<Longrightarrow> a = b"
  by (auto simp: property_key_def)

lemma group_keys_distinct:
  assumes "\<forall>r\<in>set db. status r \<noteq> None"
  shows "distinct (map (\<lambda>stat. property_key (fst stat)) (group_by_status db))"
proof -
  have "inj_on property_key (set (remdups (map status db)))"
    using assms by (auto intro!: inj_onI property_key_inj)
  then have "distinct (map property_key (remdups (map status db)))"
    by (simp add: distinct_map)
  moreover have "map (\<lambda>stat. property_key (fst stat)) (group_by_status db) =
      map property_key (remdups (map status db))"
    by (simp add: group_by_status_def comp_def)
  ultimately show ?thesis by simp
qed

subsection \<open>The example data\<close>

lemma example_created:
  "createRequest 7 [] example_body example_user = Inr (example_request, [example_request])"
  by (simp add: createRequest_def example_body_def example_user_def example_request_def
      save_def validate_def required_ok_def enum_ok_def requestType_enum_def status_enum_def
      priority_enum_def js_or_def pre_save_def new_ObjectId_def Let_def)

lemma example_stored_ok: "stored_ok example_request"
  by (simp add: stored_ok_def example_request_def validate_def required_ok_def enum_ok_def
      requestType_enum_def status_enum_def priority_enum_def validate_timelineEvent_def)

lemma example_found: "findById [example_request] 1 = Some example_request"
  by (simp add: findById_def example_request_def)

lemma example_run: "run_all [example_request] example_calls = Some [example_final]"
  by (simp add: example_calls_def example_final_def example_request_def example_admin_def
      updateRequestStatus_def addRemark_def rejectRequest_def findById_def save_def
      pre_save_def validate_def validate_timelineEvent_def required_ok_def enum_ok_def
      requestType_enum_def status_enum_def priority_enum_def js_or_def template_def
      truthy_def fullName_def Let_def)

lemma example_session_last: "last (history [] example_session) = [example_final]"
proof -
  have "step [] (7, Create example_body example_user) = [example_request]"
    by (simp add: step_def example_created)
  moreover have "history [example_request] example_calls \<noteq> []"
    using history_first [of "[example_request]" example_calls] by auto
  ultimately show ?thesis
    using run_all_history [OF example_run] by (simp add: example_session_def)
qed

lemma example_session_reached: "[example_final] \<in> set (history [] example_session)"
  using last_history_in [of "[]" example_session] by (simp only: example_session_last)

lemma example_final_found: "findById [example_final] 1 = Some example_final"
  by (simp add: findById_def example_final_def example_request_def)

lemma example_patterns:
  "core_pattern ''t.*T''" "core_pattern ''.''" "core_pattern ''(''" "core_options ''i''"
  "core_text ''Transcript''" "core_text ''Two copies''"
  by (simp_all add: core_pattern_def core_options_def core_text_def printable_def beyond_core_def)

lemma example_parses:
  "parse ''t.*T'' = Some (Cat (Chr CHR ''t'') (Cat (Star Dot) (Chr CHR ''T'')))"
  "parse ''.'' = Some Dot"
  "parse ''('' = None"
  by (simp_all add: parse_def)

lemma example_regex:
  "regex_valid example_rest ''t.*T'' ''i''"
  "regex_valid example_rest ''.'' ''i''"
  "\<not> regex_valid example_rest ''('' ''i''"
  "regex_match example_rest ''t.*T'' ''i'' ''Transcript''"
  "regex_match example_rest ''.'' ''i'' ''Transcript''"
  by (simp_all add: regex_valid_def regex_match_def example_patterns example_parses lower_def)


section \<open>The timeline is append-only\<close>

text \<open>
  C1. Along every sequence of successful calls (\<open>updateRequestStatus\<close>, \<open>addRemark\<close>,
  \<open>rejectRequest\<close>, and creations of other requests), a stored request stays stored, its
  timeline grows by exactly one entry for each call on it, and its old timeline and its
  old \<open>adminRemarks\<close> remain as prefixes of the new ones: no entry is edited or removed.
\<close>

theorem timeline_append_only:
  assumes "run_all db cs = Some db'" and "findById db i = Some r"
  shows "\<exists>r'. findById db' i = Some r' \<and>
     length (timeline r') =
       length (timeline r) + length (filter (\<lambda>c. target (snd c) = Some i) cs) \<and>
     prefix (timeline r) (timeline r') \<and>
     prefix (adminRemarks r) (adminRemarks r')"
  using assms
proof (induction cs arbitrary: db r)
  case Nil
  then show ?case by simp
next
  case (Cons c cs)
  from Cons.prems(1) obtain r1 db1 where
    h: "handle db c = Inr (r1, db1)" and run: "run_all db1 cs = Some db'"
    by (auto split: sum.splits)
  from handle_target_found [OF h Cons.prems(2)] obtain r2 where
    r2: "findById db1 i = Some r2"
      "if target (snd c) = Some i
       then (\<exists>e. timeline r2 = timeline r @ [e]) \<and>
            (adminRemarks r2 = adminRemarks r \<or> (\<exists>a. adminRemarks r2 = adminRemarks r @ [a]))
       else r2 = r"
    by blast
  from Cons.IH [OF run r2(1)] obtain r' where
    r': "findById db' i = Some r'"
      "length (timeline r') =
         length (timeline r2) + length (filter (\<lambda>c. target (snd c) = Some i) cs)"
      "prefix (timeline r2) (timeline r')" "prefix (adminRemarks r2) (adminRemarks r')"
    by blast
  have len: "length (timeline r2) =
      length (timeline r) + (if target (snd c) = Some i then 1 else 0)"
    using r2(2) by (auto split: if_splits)
  have p1: "prefix (timeline r) (timeline r2)"
    using r2(2) by (auto split: if_splits)
  have p2: "prefix (adminRemarks r) (adminRemarks r2)"
    using r2(2) by (auto split: if_splits)
  show ?case
    using r' len prefix_order.trans [OF p1 r'(3)] prefix_order.trans [OF p2 r'(4)]
    by auto
qed

theorem timeline_append_only_witness:
  "run_all [example_request] example_calls = Some [example_final] \<and>
   findById [example_request] 1 = Some example_request \<and>
   (\<exists>r'. findById [example_final] 1 = Some r' \<and>
      length (timeline r') = length (timeline example_request) + 3 \<and>
      prefix (timeline example_request) (timeline r') \<and>
      prefix (adminRemarks example_request) (adminRemarks r'))"
proof -
  have n: "length (filter (\<lambda>c. target (snd c) = Some 1) example_calls) = 3"
    by (simp add: example_calls_def)
  from timeline_append_only [OF example_run example_found] example_run example_found
  show ?thesis unfolding n by blast
qed

section \<open>Creation\<close>

text \<open>
  C2 (as amended). For a recognized \<open>requestType\<close>, a non-empty \<open>title\<close> and
  \<open>description\<close>, and a \<open>priority\<close> that is unset or one of low, medium, high, urgent,
  \<open>createRequest\<close> returns a request (appended to the collection) with status
  \<open>submitted\<close>, the given priority or \<open>medium\<close> when it is unset, and a timeline of
  exactly one entry: status \<open>submitted\<close>, message "Request submitted successfully",
  no \<open>performedBy\<close>.
\<close>

theorem createRequest_seeds_timeline:
  assumes "b_requestType body = Some ty" and "ty \<in> set requestType_enum"
    and "b_title body = Some ti" and "ti \<noteq> []"
    and "b_description body = Some de" and "de \<noteq> []"
    and "truthy (b_priority body) \<Longrightarrow> b_priority body \<in> Some ` set priority_enum"
  shows "\<exists>r. createRequest now db body usr = Inr (r, db @ [r]) \<and>
           status r = Some ''submitted'' \<and>
           priority r = (if truthy (b_priority body) then b_priority body else Some ''medium'') \<and>
           timeline r =
             [\<lparr>ev_status = Some ''submitted'', ev_message = ''Request submitted successfully'',
               performedBy = None, performedByName = None, ev_timestamp = now\<rparr>]"
proof -
  have pr: "enum_ok priority_enum (Some (js_or (b_priority body) ''medium''))"
    using assms(7)
    by (cases "b_priority body") (auto simp: enum_ok_def js_or_def truthy_def priority_enum_def)
  have pv: "Some (js_or (b_priority body) ''medium'') =
      (if truthy (b_priority body) then b_priority body else Some ''medium'')"
    by (cases "b_priority body") (auto simp: js_or_def truthy_def)
  have ty: "ty \<noteq> []"
    using assms(2) by (auto simp: requestType_enum_def)
  have ok: "enum_ok requestType_enum (Some ty)"
    using assms(2) by (simp add: enum_ok_def)
  have st: "enum_ok status_enum (Some ''submitted'')"
    by (simp add: enum_ok_def status_enum_def)
  show ?thesis
    using assms(1,3-6) pr pv ty ok st
    by (simp add: createRequest_def save_def validate_def required_ok_def
        pre_save_def Let_def)
qed

theorem createRequest_seeds_timeline_witness:
  "''transcript'' \<in> set requestType_enum \<and>
   \<not> truthy (b_priority example_body) \<and>
   truthy (Some ''high'') \<and> Some ''high'' \<in> Some ` set priority_enum \<and>
   (\<exists>r. createRequest 7 [] example_body example_user = Inr (r, [r]) \<and>
     status r = Some ''submitted'' \<and> priority r = Some ''medium'' \<and>
     timeline r =
       [\<lparr>ev_status = Some ''submitted'', ev_message = ''Request submitted successfully'',
         performedBy = None, performedByName = None, ev_timestamp = 7\<rparr>]) \<and>
   (\<exists>r. createRequest 8 [example_request] (example_body\<lparr>b_priority := Some ''high''\<rparr>)
          example_other = Inr (r, [example_request, r]) \<and>
     status r = Some ''submitted'' \<and> priority r = Some ''high'' \<and>
     timeline r =
       [\<lparr>ev_status = Some ''submitted'', ev_message = ''Request submitted successfully'',
         performedBy = None, performedByName = None, ev_timestamp = 8\<rparr>])"
proof -
  have ty: "''transcript'' \<in> set requestType_enum"
    by (simp add: requestType_enum_def)
  have hi: "Some ''high'' \<in> Some ` set priority_enum"
    by (simp add: priority_enum_def)
  show ?thesis
    using ty hi
      createRequest_seeds_timeline [of example_body "''transcript''" "''Transcript''"
        "''Two copies''" 7 "[]" example_user]
      createRequest_seeds_timeline [of "example_body\<lparr>b_priority := Some ''high''\<rparr>"
        "''transcript''" "''Transcript''" "''Two copies''" 8 "[example_request]" example_other]
    by (simp add: example_body_def truthy_def)
qed

text \<open>
  The claim as written asks only for a recognized \<open>requestType\<close> and a non-empty
  \<open>title\<close> and \<open>description\<close>; the schema's \<open>enum\<close> on \<open>priority\<close> rejects such an
  input when its priority is not a listed value.
\<close>

theorem createRequest_priority_counterexample:
  "b_requestType (example_body\<lparr>b_priority := Some ''asap''\<rparr>) = Some ''transcript'' \<and>
   ''transcript'' \<in> set requestType_enum \<and>
   b_title (example_body\<lparr>b_priority := Some ''asap''\<rparr>) = Some ''Transcript'' \<and>
   b_description (example_body\<lparr>b_priority := Some ''asap''\<rparr>) = Some ''Two copies'' \<and>
   createRequest 7 [] (example_body\<lparr>b_priority := Some ''asap''\<rparr>) example_user
     = Inl ValidationError"
  by (simp add: example_body_def requestType_enum_def createRequest_def save_def validate_def
      required_ok_def enum_ok_def js_or_def priority_enum_def status_enum_def)

section \<open>Status updates\<close>

text \<open>
  C3. The route \<open>PATCH /:id/status\<close> (\<open>authorize('admin')\<close>, then
  \<open>updateRequestStatus\<close>): a caller who is not admin gets \<open>AuthorizationError\<close>; for
  an admin, an absent request gives \<open>NotFoundError\<close>, a status that is missing or not one
  of the eight values gives \<open>ValidationError\<close>, and for a stored request and one of the
  eight values the call succeeds, the stored request has \<open>status = newStatus\<close> and one
  more timeline entry: status \<open>newStatus\<close>, the supplied message or else
  "Status updated to {newStatus}", \<open>performedBy\<close> the caller's id.
\<close>

theorem patch_status_contract:
  "(role usr \<noteq> ''admin'' \<longrightarrow> patch_status now db i body usr = Inl AuthorizationError) \<and>
   (role usr = ''admin'' \<and> findById db i = None \<longrightarrow>
      patch_status now db i body usr = Inl NotFoundError) \<and>
   (role usr = ''admin'' \<and> findById db i = Some r \<and> s_status body \<notin> Some ` set status_enum \<longrightarrow>
      patch_status now db i body usr = Inl ValidationError) \<and>
   (role usr = ''admin'' \<and> findById db i = Some r \<and> stored_ok r \<and>
    s_status body = Some s \<and> s \<in> set status_enum \<longrightarrow>
      (\<exists>r'. patch_status now db i body usr = Inr (r', replaceOne db r') \<and>
         findById (replaceOne db r') i = Some r' \<and>
         status r' = Some s \<and>
         timeline r' = timeline r @
           [\<lparr>ev_status = Some s,
             ev_message =
               (if truthy (s_message body) then template (s_message body)
                else ''Status updated to '' @ s),
             performedBy = Some (u_id usr), performedByName = Some (fullName usr),
             ev_timestamp = now\<rparr>]))"
proof (intro conjI impI)
  assume "role usr \<noteq> ''admin''"
  then show "patch_status now db i body usr = Inl AuthorizationError"
    by (simp add: patch_status_def authorize_def)
next
  assume "role usr = ''admin'' \<and> findById db i = None"
  then show "patch_status now db i body usr = Inl NotFoundError"
    by (simp add: patch_status_def authorize_def updateRequestStatus_def)
next
  assume "role usr = ''admin'' \<and> findById db i = Some r \<and> s_status body \<notin> Some ` set status_enum"
  then show "patch_status now db i body usr = Inl ValidationError"
    by (simp add: patch_status_def authorize_def updateRequestStatus_invalid)
next
  assume a: "role usr = ''admin'' \<and> findById db i = Some r \<and> stored_ok r \<and>
    s_status body = Some s \<and> s \<in> set status_enum"
  then have found: "findById db i = Some r" and v: "validate r"
    and s: "s_status body \<in> Some ` set status_enum"
    by (simp_all add: stored_ok_def)
  let ?r' = "r\<lparr>status := s_status body,
            timeline := timeline r @ [status_event now body usr],
            completedAt := (if s_status body = Some ''completed'' then Some now else completedAt r),
            updatedAt := now\<rparr>"
  have id: "rq_id ?r' = i" using findById_rq_id [OF found] by simp
  have "patch_status now db i body usr = Inr (?r', replaceOne db ?r')"
    using a updateRequestStatus_valid [OF found v s, of now usr]
    by (simp add: patch_status_def authorize_def)
  moreover have "findById (replaceOne db ?r') i = Some ?r'"
    using findById_replaceOne_same [of db ?r' r] found id by simp
  moreover have "status ?r' = Some s" using a by simp
  moreover have "timeline ?r' = timeline r @
           [\<lparr>ev_status = Some s,
             ev_message =
               (if truthy (s_message body) then template (s_message body)
                else ''Status updated to '' @ s),
             performedBy = Some (u_id usr), performedByName = Some (fullName usr),
             ev_timestamp = now\<rparr>]"
    using a by (simp add: status_event_def js_or_truthy template_def)
  ultimately show "\<exists>r'. patch_status now db i body usr = Inr (r', replaceOne db r') \<and>
         findById (replaceOne db r') i = Some r' \<and>
         status r' = Some s \<and>
         timeline r' = timeline r @
           [\<lparr>ev_status = Some s,
             ev_message =
               (if truthy (s_message body) then template (s_message body)
                else ''Status updated to '' @ s),
             performedBy = Some (u_id usr), performedByName = Some (fullName usr),
             ev_timestamp = now\<rparr>]"
    by blast
qed

theorem patch_status_contract_witness:
  "role example_admin = ''admin'' \<and> role example_user \<noteq> ''admin'' \<and>
   findById [example_request] 1 = Some example_request \<and> stored_ok example_request \<and>
   findById [example_request] 5 = None \<and>
   ''approved'' \<in> set status_enum \<and> Some ''done'' \<notin> Some ` set status_enum \<and>
   (\<exists>r'. patch_status 9 [example_request] 1 \<lparr>s_status = Some ''approved'', s_message = None\<rparr>
           example_admin = Inr (r', [r']) \<and>
         status r' = Some ''approved'' \<and>
         timeline r' = timeline example_request @
           [\<lparr>ev_status = Some ''approved'', ev_message = ''Status updated to approved'',
             performedBy = Some 2, performedByName = Some ''Ravi Kumar'',
             ev_timestamp = 9\<rparr>]) \<and>
   patch_status 9 [example_request] 1 \<lparr>s_status = Some ''approved'', s_message = None\<rparr>
     example_user = Inl AuthorizationError \<and>
   patch_status 9 [example_request] 5 \<lparr>s_status = Some ''approved'', s_message = None\<rparr>
     example_admin = Inl NotFoundError \<and>
   patch_status 9 [example_request] 1 \<lparr>s_status = Some ''done'', s_message = None\<rparr>
     example_admin = Inl ValidationError"
proof -
  have adm: "role example_admin = ''admin''" and usr: "role example_user \<noteq> ''admin''"
    by (simp_all add: example_admin_def example_user_def)
  have none: "findById [example_request] 5 = None"
    by (simp add: findById_def example_request_def)
  have ok: "''approved'' \<in> set status_enum" and bad: "Some ''done'' \<notin> Some ` set status_enum"
    by (auto simp: status_enum_def)
  have id: "rq_id example_request = 1" by (simp add: example_request_def)
  show ?thesis
    using adm usr none ok bad id example_found example_stored_ok
      patch_status_contract [of example_admin 9 "[example_request]" 1
        "\<lparr>s_status = Some ''approved'', s_message = None\<rparr>" example_request "''approved''"]
      patch_status_contract [of example_user 9 "[example_request]" 1
        "\<lparr>s_status = Some ''approved'', s_message = None\<rparr>" example_request "''approved''"]
      patch_status_contract [of example_admin 9 "[example_request]" 5
        "\<lparr>s_status = Some ''approved'', s_message = None\<rparr>" example_request "''approved''"]
      patch_status_contract [of example_admin 9 "[example_request]" 1
        "\<lparr>s_status = Some ''done'', s_message = None\<rparr>" example_request "''done''"]
    by (auto simp: truthy_def fullName_def example_admin_def)
qed

section \<open>completedAt\<close>

text \<open>
  C4. For a request of a collection that calls of the four writing handlers built from
  the empty collection: \<open>completedAt\<close> is set if and only if the request had status
  \<open>completed\<close> in the collection after some call of the sequence. On such a request,
  \<open>updateRequestStatus\<close> with status \<open>completed\<close> succeeds and sets \<open>completedAt\<close> to
  the time of the call; a successful \<open>updateRequestStatus\<close> with another status,
  \<open>addRemark\<close> and \<open>rejectRequest\<close> leave \<open>completedAt\<close> as it was; a created request
  has none.
\<close>

theorem completedAt_set_once:
  assumes "d = last (history [] cs)" and "findById d i = Some r"
  shows "(completedAt r \<noteq> None \<longleftrightarrow>
       (\<exists>d'\<in>set (history [] cs). \<exists>r0. findById d' i = Some r0 \<and> status r0 = Some ''completed'')) \<and>
     (\<forall>now body usr. s_status body = Some ''completed'' \<longrightarrow>
        (\<exists>r'. updateRequestStatus now d i body usr = Inr (r', replaceOne d r') \<and>
              completedAt r' = Some now)) \<and>
     (\<forall>now body usr r' d'.
        updateRequestStatus now d i body usr = Inr (r', d') \<and> s_status body \<noteq> Some ''completed'' \<longrightarrow>
        completedAt r' = completedAt r) \<and>
     (\<forall>now body usr r' d'.
        addRemark now d i body usr = Inr (r', d') \<longrightarrow> completedAt r' = completedAt r) \<and>
     (\<forall>now body usr r' d'.
        rejectRequest now d i body usr = Inr (r', d') \<longrightarrow> completedAt r' = completedAt r) \<and>
     (\<forall>now body usr r' d'.
        createRequest now d body usr = Inr (r', d') \<longrightarrow> completedAt r' = None)"
proof (intro conjI allI impI)
  have "findById [] i = None" by (simp add: findById_def)
  then have "\<forall>r. findById [] i = Some r \<longrightarrow> status r = Some ''completed'' \<longrightarrow> completedAt r \<noteq> None"
    by simp
  from completedAt_history [OF this, of cs r] assms \<open>findById [] i = None\<close>
  show "completedAt r \<noteq> None \<longleftrightarrow>
       (\<exists>d'\<in>set (history [] cs). \<exists>r0. findById d' i = Some r0 \<and> status r0 = Some ''completed'')"
    by simp
next
  fix now :: date and body :: status_body and usr :: user
  assume s: "s_status body = Some ''completed''"
  have "stored_ok r"
    using history_stored_ok [of d cs r] last_history_in [of "[]" cs] assms
      findById_in_set [of d i r] by simp
  then have v: "validate r" by (simp add: stored_ok_def)
  have e: "s_status body \<in> Some ` set status_enum"
    using s by (simp add: status_enum_def)
  let ?r' = "r\<lparr>status := s_status body,
            timeline := timeline r @ [status_event now body usr],
            completedAt := (if s_status body = Some ''completed'' then Some now else completedAt r),
            updatedAt := now\<rparr>"
  have "updateRequestStatus now d i body usr = Inr (?r', replaceOne d ?r')"
    by (rule updateRequestStatus_valid [OF assms(2) v e])
  moreover have "completedAt ?r' = Some now" using s by simp
  ultimately show "\<exists>r'. updateRequestStatus now d i body usr = Inr (r', replaceOne d r') \<and>
              completedAt r' = Some now"
    by blast
next
  fix now :: date and body :: status_body and usr :: user and r' d'
  assume "updateRequestStatus now d i body usr = Inr (r', d') \<and> s_status body \<noteq> Some ''completed''"
  with updateRequestStatus_Inr [of now d i body usr r' d'] assms(2)
  show "completedAt r' = completedAt r" by auto
next
  fix now body usr r' d'
  assume "addRemark now d i body usr = Inr (r', d')"
  with addRemark_Inr [of now d i body usr r' d'] assms(2)
  show "completedAt r' = completedAt r" by auto
next
  fix now body usr r' d'
  assume "rejectRequest now d i body usr = Inr (r', d')"
  with rejectRequest_Inr [of now d i body usr r' d'] assms(2)
  show "completedAt r' = completedAt r" by auto
next
  fix now body usr r' d'
  assume "createRequest now d body usr = Inr (r', d')"
  from createRequest_Inr [OF this] show "completedAt r' = None" by simp
qed

theorem completedAt_set_once_witness:
  "[example_final] = last (history [] example_session) \<and>
   findById [example_final] 1 = Some example_final \<and>
   completedAt example_final = Some 9 \<and> status example_final = Some ''rejected'' \<and>
   (\<exists>d'\<in>set (history [] example_session).
      \<exists>r0. findById d' 1 = Some r0 \<and> status r0 = Some ''completed'') \<and>
   (\<exists>r'. updateRequestStatus 12 [example_final] 1
           \<lparr>s_status = Some ''completed'', s_message = None\<rparr> example_admin
         = Inr (r', replaceOne [example_final] r') \<and>
       completedAt r' = Some 12)"
proof -
  have l: "[example_final] = last (history [] example_session)"
    by (simp only: example_session_last)
  have c: "completedAt example_final = Some 9" "status example_final = Some ''rejected''"
    by (simp_all add: example_final_def)
  from completedAt_set_once [OF l example_final_found] l example_final_found c
  show ?thesis by simp
qed

section \<open>Rejection\<close>




section \<open>Remarks\<close>

text \<open>
  C6. \<open>addRemark\<close>: an empty or missing remark gives \<open>ValidationError\<close>; for a stored
  request and a non-empty remark the call succeeds, \<open>status\<close> is unchanged, and the stored
  request differs from the old one in exactly the new \<open>adminRemarks\<close> entry (the caller's
  id and name, the remark, the time), the mirrored timeline entry (the unchanged status,
  message "Admin added a remark: {remark}", \<open>performedBy\<close> the caller's id) and
  \<open>updatedAt\<close>.
\<close>

theorem addRemark_contract:
  "(\<not> truthy (r_remark body) \<longrightarrow> addRemark now db i body usr = Inl ValidationError) \<and>
   (r_remark body = Some text \<and> text \<noteq> [] \<and> findById db i = Some r \<and> stored_ok r \<longrightarrow>
      (\<exists>r'. addRemark now db i body usr = Inr (r', replaceOne db r') \<and>
         findById (replaceOne db r') i = Some r' \<and>
         status r' = status r \<and>
         r' = r\<lparr>adminRemarks := adminRemarks r @
                  [\<lparr>admin = u_id usr, adminName = fullName usr, remark = text,
                    rm_timestamp = now\<rparr>],
                timeline := timeline r @
                  [\<lparr>ev_status = status r, ev_message = ''Admin added a remark: '' @ text,
                    performedBy = Some (u_id usr), performedByName = Some (fullName usr),
                    ev_timestamp = now\<rparr>],
                updatedAt := now\<rparr>))"
proof (intro conjI impI)
  assume "\<not> truthy (r_remark body)"
  then show "addRemark now db i body usr = Inl ValidationError"
    by (simp add: addRemark_def)
next
  assume a: "r_remark body = Some text \<and> text \<noteq> [] \<and> findById db i = Some r \<and> stored_ok r"
  then have t: "truthy (r_remark body)" and found: "findById db i = Some r" and v: "stored_ok r"
    by (simp_all add: truthy_def)
  let ?r' = "r\<lparr>adminRemarks := adminRemarks r @ [remark_entry now body usr],
            timeline := timeline r @ [remark_event now (status r) body usr],
            updatedAt := now\<rparr>"
  have id: "rq_id ?r' = i" using findById_rq_id [OF found] by simp
  have res: "addRemark now db i body usr = Inr (?r', replaceOne db ?r')"
    by (rule addRemark_valid [OF t found v])
  have stored: "findById (replaceOne db ?r') i = Some ?r'"
    using findById_replaceOne_same [of db ?r' r] found id by simp
  have st: "status ?r' = status r" by simp
  have fr: "?r' = r\<lparr>adminRemarks := adminRemarks r @
                  [\<lparr>admin = u_id usr, adminName = fullName usr, remark = text,
                    rm_timestamp = now\<rparr>],
                timeline := timeline r @
                  [\<lparr>ev_status = status r, ev_message = ''Admin added a remark: '' @ text,
                    performedBy = Some (u_id usr), performedByName = Some (fullName usr),
                    ev_timestamp = now\<rparr>],
                updatedAt := now\<rparr>"
    using a by (simp add: remark_entry_def remark_event_def template_def)
  show "\<exists>r'. addRemark now db i body usr = Inr (r', replaceOne db r') \<and>
         findById (replaceOne db r') i = Some r' \<and>
         status r' = status r \<and>
         r' = r\<lparr>adminRemarks := adminRemarks r @
                  [\<lparr>admin = u_id usr, adminName = fullName usr, remark = text,
                    rm_timestamp = now\<rparr>],
                timeline := timeline r @
                  [\<lparr>ev_status = status r, ev_message = ''Admin added a remark: '' @ text,
                    performedBy = Some (u_id usr), performedByName = Some (fullName usr),
                    ev_timestamp = now\<rparr>],
                updatedAt := now\<rparr>"
    apply (rule exI [of _ ?r'])
    apply (intro conjI)
       apply (rule res)
      apply (rule stored)
     apply (rule st)
    apply (rule fr)
    done
qed

theorem addRemark_contract_witness:
  "findById [example_request] 1 = Some example_request \<and> stored_ok example_request \<and>
   \<not> truthy (Some []) \<and>
   (\<exists>r'. addRemark 9 [example_request] 1 \<lparr>r_remark = Some ''Seen''\<rparr> example_admin
           = Inr (r', [r']) \<and>
         status r' = Some ''submitted'' \<and>
         adminRemarks r' =
           [\<lparr>admin = 2, adminName = ''Ravi Kumar'', remark = ''Seen'', rm_timestamp = 9\<rparr>] \<and>
         timeline r' = timeline example_request @
           [\<lparr>ev_status = Some ''submitted'', ev_message = ''Admin added a remark: Seen'',
             performedBy = Some 2, performedByName = Some ''Ravi Kumar'',
             ev_timestamp = 9\<rparr>]) \<and>
   addRemark 9 [example_request] 1 \<lparr>r_remark = Some []\<rparr> example_admin
     = Inl ValidationError"
proof -
  have st: "status example_request = Some ''submitted''"
    and rm: "adminRemarks example_request = []"
    and id: "rq_id example_request = 1"
    by (simp_all add: example_request_def)
  show ?thesis
    using st rm id example_found example_stored_ok
      addRemark_contract [of "\<lparr>r_remark = Some ''Seen''\<rparr>" 9 "[example_request]" 1
        example_admin "''Seen''" example_request]
      addRemark_contract [of "\<lparr>r_remark = Some []\<rparr>" 9 "[example_request]" 1
        example_admin "[]" example_request]
    by (simp add: truthy_def fullName_def example_admin_def)
qed

section \<open>Reading one request\<close>




section \<open>Listing all requests\<close>

text \<open>
  C8 (as amended). \<open>getAllRequests\<close> fails when the search option is set and the
  database refuses its text as a pattern. Otherwise it returns exactly the stored requests
  that satisfy all set options (an option is set when it is present and not empty):
  \<open>status\<close>, \<open>requestType\<close> and \<open>priority\<close> as exact matches, and \<open>search\<close> as a
  case-insensitive regular-expression match, the search text being the pattern, against
  \<open>title\<close> or \<open>description\<close>; the result is ordered by \<open>createdAt\<close> descending.
  (For a search text of ordinary characters the match is the substring match of the
  specification: \<open>regex_match_ordinary\<close>.)
\<close>

theorem getAllRequests_filters_and_sorts:
  "(truthy (q_search q) \<and> \<not> regex_valid rest (template (q_search q)) ''i'' \<longrightarrow>
      getAllRequests rest db q = Inl PersistenceError) \<and>
   ((truthy (q_search q) \<longrightarrow> regex_valid rest (template (q_search q)) ''i'') \<longrightarrow>
      (\<exists>rs. getAllRequests rest db q = Inr rs \<and>
         mset rs =
           mset (filter
             (\<lambda>r. (truthy (q_status q) \<longrightarrow> status r = q_status q) \<and>
                  (truthy (q_requestType q) \<longrightarrow> requestType r = q_requestType q) \<and>
                  (truthy (q_priority q) \<longrightarrow> priority r = q_priority q) \<and>
                  (\<forall>pat. q_search q = Some pat \<and> pat \<noteq> [] \<longrightarrow>
                     (\<exists>t. title r = Some t \<and> regex_match rest pat ''i'' t) \<or>
                     (\<exists>d. description r = Some d \<and> regex_match rest pat ''i'' d))) db) \<and>
         sorted_wrt (\<lambda>a b. createdAt b \<le> createdAt a) rs))"
proof (intro conjI impI)
  assume "truthy (q_search q) \<and> \<not> regex_valid rest (template (q_search q)) ''i''"
  then show "getAllRequests rest db q = Inl PersistenceError"
    by (simp add: getAllRequests_def)
next
  assume v: "truthy (q_search q) \<longrightarrow> regex_valid rest (template (q_search q)) ''i''"
  let ?rs = "sort_key (\<lambda>r. - int (createdAt r)) (filter (query_matches rest q) db)"
  have res: "getAllRequests rest db q = Inr ?rs"
    using v by (auto simp: getAllRequests_def)
  have eq: "query_matches rest q =
      (\<lambda>r. (truthy (q_status q) \<longrightarrow> status r = q_status q) \<and>
            (truthy (q_requestType q) \<longrightarrow> requestType r = q_requestType q) \<and>
            (truthy (q_priority q) \<longrightarrow> priority r = q_priority q) \<and>
            (\<forall>pat. q_search q = Some pat \<and> pat \<noteq> [] \<longrightarrow>
               (\<exists>t. title r = Some t \<and> regex_match rest pat ''i'' t) \<or>
               (\<exists>d. description r = Some d \<and> regex_match rest pat ''i'' d)))"
    by (rule ext)
      (auto simp: query_matches_def exact_def regex_field_def truthy_def template_def
        split: option.splits)
  have ms: "mset ?rs =
      mset (filter
             (\<lambda>r. (truthy (q_status q) \<longrightarrow> status r = q_status q) \<and>
                  (truthy (q_requestType q) \<longrightarrow> requestType r = q_requestType q) \<and>
                  (truthy (q_priority q) \<longrightarrow> priority r = q_priority q) \<and>
                  (\<forall>pat. q_search q = Some pat \<and> pat \<noteq> [] \<longrightarrow>
                     (\<exists>t. title r = Some t \<and> regex_match rest pat ''i'' t) \<or>
                     (\<exists>d. description r = Some d \<and> regex_match rest pat ''i'' d))) db)"
    unfolding eq [symmetric] by simp
  have "sorted (map (\<lambda>r. - int (createdAt r)) ?rs)"
    by (rule sorted_sort_key)
  then have so: "sorted_wrt (\<lambda>a b. createdAt b \<le> createdAt a) ?rs"
    by (simp add: sorted_map)
  show "\<exists>rs. getAllRequests rest db q = Inr rs \<and>
         mset rs =
           mset (filter
             (\<lambda>r. (truthy (q_status q) \<longrightarrow> status r = q_status q) \<and>
                  (truthy (q_requestType q) \<longrightarrow> requestType r = q_requestType q) \<and>
                  (truthy (q_priority q) \<longrightarrow> priority r = q_priority q) \<and>
                  (\<forall>pat. q_search q = Some pat \<and> pat \<noteq> [] \<longrightarrow>
                     (\<exists>t. title r = Some t \<and> regex_match rest pat ''i'' t) \<or>
                     (\<exists>d. description r = Some d \<and> regex_match rest pat ''i'' d))) db) \<and>
         sorted_wrt (\<lambda>a b. createdAt b \<le> createdAt a) rs"
    apply (rule exI [of _ ?rs])
    apply (intro conjI)
      apply (rule res)
     apply (rule ms)
    apply (rule so)
    done
qed

theorem getAllRequests_filters_and_sorts_witness:
  "truthy (q_status example_completed) \<and> \<not> truthy (q_requestType example_completed) \<and>
   truthy (q_search example_completed) \<and>
   regex_valid example_rest (template (q_search example_completed)) ''i'' \<and>
   getAllRequests example_rest example_listing example_completed =
     Inr [example_request\<lparr>rq_id := 3, status := Some ''completed'', createdAt := 9\<rparr>,
          example_request\<lparr>rq_id := 2, status := Some ''completed'', createdAt := 8\<rparr>] \<and>
   truthy (q_search example_unclosed) \<and>
   \<not> regex_valid example_rest (template (q_search example_unclosed)) ''i'' \<and>
   getAllRequests example_rest example_listing example_unclosed = Inl PersistenceError \<and>
   \<not> truthy (q_search example_all) \<and>
   getAllRequests example_rest example_store example_all = Inr example_store"
proof -
  have w: "getAllRequests example_rest example_store example_all = Inr example_store"
    by (simp add: getAllRequests_def query_matches_def exact_def example_all_def truthy_def
        example_store_def example_request_def)
  have n: "\<not> truthy (q_search example_all)"
    by (simp add: example_all_def truthy_def)
  have t: "truthy (q_status example_completed)" "\<not> truthy (q_requestType example_completed)"
    "truthy (q_search example_completed)" "truthy (q_search example_unclosed)"
    by (simp_all add: example_completed_def example_unclosed_def truthy_def)
  have p: "template (q_search example_completed) = ''t.*T''"
    "template (q_search example_unclosed) = ''(''"
    by (simp_all add: example_completed_def example_unclosed_def template_def)
  have v: "getAllRequests example_rest example_listing example_completed =
     Inr [example_request\<lparr>rq_id := 3, status := Some ''completed'', createdAt := 9\<rparr>,
          example_request\<lparr>rq_id := 2, status := Some ''completed'', createdAt := 8\<rparr>]"
    by (simp add: getAllRequests_def query_matches_def exact_def regex_field_def
        example_listing_def example_completed_def example_request_def truthy_def
        template_def example_regex)
  from getAllRequests_filters_and_sorts [of example_unclosed example_rest example_listing]
    getAllRequests_filters_and_sorts [of example_completed example_rest example_listing]
    getAllRequests_filters_and_sorts [of example_all example_rest example_store]
    t p v w n example_regex
  show ?thesis by simp
qed

text \<open>
  The claim as written fails in three ways. The search text is a pattern, not a
  substring: a single dot selects a request whose title and description contain no dot.
  A search text that is not a pattern, as an opening parenthesis, makes the call fail.
  An option that is present but empty, as \<open>status\<close> here, is no constraint.
\<close>

theorem getAllRequests_substring_counterexample:
  "getAllRequests example_rest [example_request] example_query = Inr [example_request] \<and>
   filter (spec_matches example_query) [example_request] = [] \<and>
   getAllRequests example_rest [example_request] example_unclosed = Inl PersistenceError \<and>
   getAllRequests example_rest [example_request] example_blank = Inr [example_request] \<and>
   filter (spec_matches example_blank) [example_request] = []"
proof -
  have a: "getAllRequests example_rest [example_request] example_query = Inr [example_request]"
    by (simp add: getAllRequests_def query_matches_def exact_def regex_field_def
        example_query_def example_request_def truthy_def template_def example_regex)
  have b: "filter (spec_matches example_query) [example_request] = []"
    by (simp add: spec_matches_def spec_exact_def ci_substring_def example_query_def
        example_request_def sublist_code lower_def)
  have c: "getAllRequests example_rest [example_request] example_unclosed = Inl PersistenceError"
    by (simp add: getAllRequests_def example_unclosed_def truthy_def template_def example_regex)
  have d: "getAllRequests example_rest [example_request] example_blank = Inr [example_request]"
    by (simp add: getAllRequests_def query_matches_def exact_def example_blank_def truthy_def)
  have e: "filter (spec_matches example_blank) [example_request] = []"
    by (simp add: spec_matches_def spec_exact_def example_blank_def example_request_def)
  from a b c d e show ?thesis by simp
qed

section \<open>Statistics\<close>

text \<open>
  C9. For a collection in which every request has a status (as in every collection the
  handlers build), \<open>getRequestStats\<close> returns \<open>total\<close>, the number of requests, and
  \<open>byStatus\<close>, which maps each status that occurs to the number of requests having it and
  has no entry for a status that does not occur; so every count in it is positive.
\<close>

theorem getRequestStats_counts:
  assumes "\<forall>r\<in>set db. status r \<noteq> None"
  shows "total (getRequestStats db) = length db \<and>
     (\<forall>s. byStatus (getRequestStats db) s =
        (if \<exists>r\<in>set db. status r = Some s
         then Some (length (filter (\<lambda>r. status r = Some s) db)) else None)) \<and>
     (\<forall>s n. byStatus (getRequestStats db) s = Some n \<longrightarrow> 0 < n)"
proof -
  have t: "total (getRequestStats db) = length db"
    by (simp add: getRequestStats_def)
  have b: "byStatus (getRequestStats db) s =
        (if \<exists>r\<in>set db. status r = Some s
         then Some (length (filter (\<lambda>r. status r = Some s) db)) else None)" for s
  proof (cases "\<exists>r\<in>set db. status r = Some s")
    case True
    then have "Some s \<in> set (remdups (map status db))"
      by force
    then have "(Some s, length (filter (\<lambda>r. status r = Some s) db)) \<in> set (group_by_status db)"
      unfolding group_by_status_def set_map by (rule rev_image_eqI) simp
    from byStatus_fold_entry [OF group_keys_distinct [OF assms] this, of Map.empty] True
    show ?thesis by (simp add: getRequestStats_def property_key_def)
  next
    case False
    have "s \<notin> (\<lambda>stat. property_key (fst stat)) ` set (group_by_status db)"
    proof
      assume "s \<in> (\<lambda>stat. property_key (fst stat)) ` set (group_by_status db)"
      then obtain r where r: "r \<in> set db" "s = property_key (status r)"
        by (auto simp: group_by_status_def)
      with assms obtain s' where "status r = Some s'" by auto
      with r False show False by (auto simp: property_key_def)
    qed
    from byStatus_fold_other [OF this, of Map.empty] False
    show ?thesis by (simp add: getRequestStats_def)
  qed
  have p: "0 < n" if "byStatus (getRequestStats db) s = Some n" for s n
  proof -
    from that b [of s] obtain r where r: "r \<in> set db" "status r = Some s"
      and n: "n = length (filter (\<lambda>r. status r = Some s) db)"
      by (auto split: if_splits)
    from r have "filter (\<lambda>r. status r = Some s) db \<noteq> []"
      by (auto simp: filter_empty_conv)
    with n show ?thesis by simp
  qed
  from t b p show ?thesis by blast
qed

theorem getRequestStats_counts_witness:
  "list_all (\<lambda>r. status r \<noteq> None) example_store \<and>
   total (getRequestStats example_store) = 5 \<and>
   byStatus (getRequestStats example_store) ''submitted'' = Some 3 \<and>
   byStatus (getRequestStats example_store) ''completed'' = Some 2 \<and>
   byStatus (getRequestStats example_store) ''rejected'' = None"
proof -
  have h: "\<forall>r\<in>set example_store. status r \<noteq> None"
    by (simp add: example_store_def example_request_def)
  from getRequestStats_counts [OF h] h show ?thesis
    by (simp add: example_store_def example_request_def list_all_iff)
qed

section \<open>The timeline entry of the system\<close>

text \<open>
  C10. In every collection that calls of the four writing handlers build from the empty
  collection, every request's timeline is non-empty and has exactly one entry without
  \<open>performedBy\<close>: its first, the "Request submitted successfully" entry of status
  \<open>submitted\<close> that creation seeds. Every entry a successful \<open>updateRequestStatus\<close>,
  \<open>addRemark\<close> or \<open>rejectRequest\<close> appends has the caller's id as \<open>performedBy\<close>.
\<close>

theorem timeline_one_system_entry:
  assumes "d \<in> set (history [] cs)" and "r \<in> set d"
  shows "timeline r \<noteq> [] \<and>
     performedBy (hd (timeline r)) = None \<and>
     ev_status (hd (timeline r)) = Some ''submitted'' \<and>
     ev_message (hd (timeline r)) = ''Request submitted successfully'' \<and>
     filter (\<lambda>e. performedBy e = None) (timeline r) = [hd (timeline r)] \<and>
     (\<forall>c r' db' j r0.
        handle d c = Inr (r', db') \<and> target (snd c) = Some j \<and> findById d j = Some r0 \<longrightarrow>
        (\<exists>e. timeline r' = timeline r0 @ [e] \<and> performedBy e = Some (u_id (caller (snd c)))))"
proof -
  have s: "seeded r" by (rule history_seeded [OF assms])
  then obtain e es where tl: "timeline r = e # es" and e: "performedBy e = None"
    "ev_status e = Some ''submitted''" "ev_message e = ''Request submitted successfully''"
    and es: "list_all (\<lambda>e'. performedBy e' \<noteq> None) es"
    by (auto simp: seeded_def split: list.splits)
  have "filter (\<lambda>e. performedBy e = None) es = []"
    using es by (induction es) auto
  with tl e have one: "filter (\<lambda>e. performedBy e = None) (timeline r) = [hd (timeline r)]"
    by simp
  have app: "\<forall>c r' db' j r0.
        handle d c = Inr (r', db') \<and> target (snd c) = Some j \<and> findById d j = Some r0 \<longrightarrow>
        (\<exists>e. timeline r' = timeline r0 @ [e] \<and> performedBy e = Some (u_id (caller (snd c))))"
  proof (intro allI impI)
    fix c r' db' j r0
    assume a: "handle d c = Inr (r', db') \<and> target (snd c) = Some j \<and> findById d j = Some r0"
    with handle_Inr_cases [of d c r' db']
    show "\<exists>e. timeline r' = timeline r0 @ [e] \<and> performedBy e = Some (u_id (caller (snd c)))"
      by auto
  qed
  from tl e one app show ?thesis by simp
qed

theorem timeline_one_system_entry_witness:
  "[example_final] \<in> set (history [] example_session) \<and>
   example_final \<in> set [example_final] \<and>
   timeline example_final \<noteq> [] \<and>
   performedBy (hd (timeline example_final)) = None \<and>
   length (timeline example_final) = 4 \<and>
   filter (\<lambda>e. performedBy e = None) (timeline example_final) = [hd (timeline example_final)]"
proof -
  have m: "example_final \<in> set [example_final]" by simp
  have n: "length (timeline example_final) = 4"
    by (simp add: example_final_def example_request_def)
  from timeline_one_system_entry [OF example_session_reached m] example_session_reached m n
  show ?thesis by blast
qed

end
